theory Spec2Isabelle
  imports Main "HOL-Library.Word" "HOL-Library.Signed_Division" "HOL-Library.AList"
begin

chapter \<open>The embedding\<close>

section \<open>Go primitives the program relies on\<close>

type_synonym byte = "8 word"

text \<open>
  Go's \<^verbatim>\<open>int\<close> on the 64-bit targets and \<^verbatim>\<open>time.Duration\<close> (nanoseconds) are
  64-bit two's complement integers: \<open>+\<close> wraps, \<open>sint\<close> reads the value, \<open><s\<close> is the
  signed comparison. The remainder \<^verbatim>\<open>%\<close> truncates towards zero.
\<close>

type_synonym int64 = "64 word"

definition go_rem :: "int64 \<Rightarrow> int64 \<Rightarrow> int64" where
  "go_rem a b = word_of_int (sint a smod sint b)"

definition Second :: int64 where
  "Second = 1000000000"

text \<open>
  Instants are nanoseconds on an unbounded line; \<^verbatim>\<open>t.Sub(u)\<close> is the duration
  \<open>t - u\<close>, saturated to the range of \<^verbatim>\<open>time.Duration\<close>.
\<close>

definition time_Sub :: "int \<Rightarrow> int \<Rightarrow> int" where
  "time_Sub t u = max (- (2 ^ 63)) (min (2 ^ 63 - 1) (t - u))"

text \<open>
  A channel seen from the sending side: \<open>room\<close> is the number of values it can hold
  before a sender has to wait (buffer slots, or a receiver already waiting on an
  unbuffered channel), \<open>queued\<close> the values sent and not yet taken. The statement
  \<^verbatim>\<open>ch <- v\<close> completes when there is room and parks the sender otherwise:
  \<open>None\<close> is the parked sender. A plain send has no other outcome.
\<close>

record 'a chan =
  room :: nat
  queued :: "'a list"

definition chan_send :: "'a chan \<Rightarrow> 'a \<Rightarrow> 'a chan option" where
  "chan_send ch v =
     (if length (queued ch) < room ch then Some (ch\<lparr>queued := queued ch @ [v]\<rparr>) else None)"

text \<open>
  \<^verbatim>\<open>sync.RWMutex\<close>: one writer or any number of readers. \<open>None\<close> is a caller that
  has to wait for the lock.
\<close>

record rwmutex =
  writer :: bool
  readers :: nat

definition Lock :: "rwmutex \<Rightarrow> rwmutex option" where
  "Lock m = (if writer m \<or> 0 < readers m then None else Some (m\<lparr>writer := True\<rparr>))"

definition Unlock :: "rwmutex \<Rightarrow> rwmutex" where
  "Unlock m = m\<lparr>writer := False\<rparr>"

definition RLock :: "rwmutex \<Rightarrow> rwmutex option" where
  "RLock m = (if writer m then None else Some (m\<lparr>readers := Suc (readers m)\<rparr>))"

definition RUnlock :: "rwmutex \<Rightarrow> rwmutex" where
  "RUnlock m = m\<lparr>readers := readers m - 1\<rparr>"

text \<open>
  A byte slice. Slices alias their backing array, so a slice carries the identity of
  the array it was cut from (\<open>backing\<close>: the number of the allocation that made it)
  together with the bytes seen through it.
\<close>

record frame =
  backing :: nat
  content :: "byte list"

text \<open>
  \<^verbatim>\<open>net.IP\<close> is a byte slice of length 4 or 16, and \<^verbatim>\<open>net.IP.Equal\<close> takes an
  IPv4 address and the same address in its IPv6 form for equal.
\<close>

type_synonym ip = "byte list"

definition v4InV6Prefix :: "byte list" where
  "v4InV6Prefix = [0, 0, 0, 0, 0, 0, 0, 0, 0, 0, 255, 255]"

definition IP_Equal :: "ip \<Rightarrow> ip \<Rightarrow> bool" where
  "IP_Equal a x =
     (if length a = length x then a = x
      else if length a = 4 \<and> length x = 16 then take 12 x = v4InV6Prefix \<and> a = drop 12 x
      else if length a = 16 \<and> length x = 4 then take 12 a = v4InV6Prefix \<and> drop 12 a = x
      else False)"

record UDPAddr =
  IP :: ip
  Port :: int

text \<open>
  \<^verbatim>\<open>conn.ReadFromUDP(b)\<close> copies the next datagram into \<open>b\<close>, as much of it as
  fits, and returns the number of bytes copied.
\<close>

definition ReadFromUDP :: "byte list \<Rightarrow> byte list \<Rightarrow> nat \<times> byte list" where
  "ReadFromUDP b payload =
     (let n = min (length payload) (length b) in (n, take n payload @ drop n b))"

text \<open>\<^verbatim>\<open>strings.Split(s, ",")\<close>: the pieces between the commas, at least one.\<close>

fun strings_Split_comma :: "string \<Rightarrow> string list" where
  "strings_Split_comma [] = [[]]"
| "strings_Split_comma (c # cs) =
     (if c = CHR '','' then [] # strings_Split_comma cs
      else (case strings_Split_comma cs of
              [] \<Rightarrow> [[c]]
            | w # ws \<Rightarrow> (c # w) # ws))"

section \<open>main.go: types\<close>

datatype trackFlow = TRACK_FLOW_RTP | TRACK_FLOW_RTCP

record track =
  rtpPort :: int
  rtcpPort :: int

datatype streamProtocol = STREAM_PROTOCOL_UDP | STREAM_PROTOCOL_TCP

definition streamProtocol_String :: "streamProtocol \<Rightarrow> string" where
  "streamProtocol_String s = (if s = STREAM_PROTOCOL_UDP then ''udp'' else ''tcp'')"

record streamConf =
  Url :: string
  UseTcp :: bool

record conf =
  Protocols :: "string list"
  RtspPort :: int64
  RtpPort :: int64
  RtcpPort :: int64
  StreamReadyTimeout :: int64
  StreamTTL :: int64

text \<open>The errors the two files produce, one constructor for each message.\<close>

datatype error =
    OpenFailed
  | DecodeFailed
  | RtspPortNotProvided
  | RtpPortNotProvided
  | RtcpPortNotProvided
  | RtpPortNotEven
  | RtcpPortNotRtpPlus1
  | TooSmallStreamReadyTimeout
  | TooSmallStreamTTL
  | UnsupportedProtocol string
  | NoProtocolsProvided
  | ListenFailed

section \<open>main.go: \<^verbatim>\<open>loadConf\<close>\<close>

text \<open>
  A YAML document as the decoder sees it: scalars still as text, sequences, and
  mappings with their keys. What the decoder reads from a stream is a document, the end
  of the stream, or bytes that are not YAML.
\<close>

datatype yaml = YScalar string | YSeq "yaml list" | YMap "(string \<times> yaml) list"

datatype yaml_input = EndOfInput | Malformed | Document yaml

text \<open>
  The scalar conversions belong to the YAML library and are parameters of the model:
  whether a scalar is null, and its value as an integer, as a duration and as a string
  (\<open>None\<close>: the scalar cannot be converted to the field's type).
\<close>

record yaml_scalars =
  yaml_null :: "string \<Rightarrow> bool"
  yaml_int :: "string \<Rightarrow> int64 option"
  yaml_duration :: "string \<Rightarrow> int64 option"
  yaml_string :: "string \<Rightarrow> string option"

definition zero_conf :: conf where
  "zero_conf = \<lparr>Protocols = [], RtspPort = 0, RtpPort = 0, RtcpPort = 0,
                 StreamReadyTimeout = 0, StreamTTL = 0\<rparr>"

text \<open>
  A struct field without a tag is keyed by its lower-cased name. A key that is absent
  leaves the field at its zero value; a value of the wrong shape is a decoding error.
\<close>

definition decode_scalar ::
  "(string \<Rightarrow> 'a option) \<Rightarrow> 'a \<Rightarrow> (string \<times> yaml) list \<Rightarrow> string \<Rightarrow> error + 'a" where
  "decode_scalar conv zero kvs key =
     (case map_of kvs key of
        None \<Rightarrow> Inr zero
      | Some (YScalar s) \<Rightarrow> (case conv s of None \<Rightarrow> Inl DecodeFailed | Some v \<Rightarrow> Inr v)
      | Some (YSeq xs) \<Rightarrow> Inl DecodeFailed
      | Some (YMap m) \<Rightarrow> Inl DecodeFailed)"

fun decode_strings :: "yaml_scalars \<Rightarrow> yaml list \<Rightarrow> error + string list" where
  "decode_strings Y [] = Inr []"
| "decode_strings Y (YScalar s # xs) =
     (case yaml_string Y s of
        None \<Rightarrow> Inl DecodeFailed
      | Some v \<Rightarrow> (case decode_strings Y xs of Inl e \<Rightarrow> Inl e | Inr vs \<Rightarrow> Inr (v # vs)))"
| "decode_strings Y (x # xs) = Inl DecodeFailed"

definition decode_string_list ::
  "yaml_scalars \<Rightarrow> (string \<times> yaml) list \<Rightarrow> string \<Rightarrow> error + string list" where
  "decode_string_list Y kvs key =
     (case map_of kvs key of
        None \<Rightarrow> Inr []
      | Some (YScalar s) \<Rightarrow> (if yaml_null Y s then Inr [] else Inl DecodeFailed)
      | Some (YSeq xs) \<Rightarrow> decode_strings Y xs
      | Some (YMap m) \<Rightarrow> Inl DecodeFailed)"

definition decode_conf :: "yaml_scalars \<Rightarrow> yaml \<Rightarrow> error + conf" where
  "decode_conf Y doc =
     (case doc of
        YScalar s \<Rightarrow> (if yaml_null Y s then Inr zero_conf else Inl DecodeFailed)
      | YSeq xs \<Rightarrow> Inl DecodeFailed
      | YMap kvs \<Rightarrow>
          (case decode_string_list Y kvs ''protocols'' of Inl e \<Rightarrow> Inl e | Inr protos \<Rightarrow>
          (case decode_scalar (yaml_int Y) 0 kvs ''rtspport'' of Inl e \<Rightarrow> Inl e | Inr rtsp \<Rightarrow>
          (case decode_scalar (yaml_int Y) 0 kvs ''rtpport'' of Inl e \<Rightarrow> Inl e | Inr rtp \<Rightarrow>
          (case decode_scalar (yaml_int Y) 0 kvs ''rtcpport'' of Inl e \<Rightarrow> Inl e | Inr rtcp \<Rightarrow>
          (case decode_scalar (yaml_duration Y) 0 kvs ''streamreadytimeout'' of
             Inl e \<Rightarrow> Inl e | Inr ready \<Rightarrow>
          (case decode_scalar (yaml_duration Y) 0 kvs ''streamttl'' of Inl e \<Rightarrow> Inl e | Inr ttl \<Rightarrow>
             Inr \<lparr>Protocols = protos, RtspPort = rtsp, RtpPort = rtp, RtcpPort = rtcp,
                  StreamReadyTimeout = ready, StreamTTL = ttl\<rparr>)))))))"

definition yaml_Decode :: "yaml_scalars \<Rightarrow> yaml_input \<Rightarrow> error + conf" where
  "yaml_Decode Y inp =
     (case inp of
        EndOfInput \<Rightarrow> Inl DecodeFailed
      | Malformed \<Rightarrow> Inl DecodeFailed
      | Document doc \<Rightarrow> decode_conf Y doc)"

text \<open>
  What \<^verbatim>\<open>loadConf\<close> reads: standard input, and the files that \<^verbatim>\<open>os.Open\<close>
  can open (a path without an entry cannot be opened).
\<close>

record filesystem =
  Stdin :: yaml_input
  files :: "string \<rightharpoonup> yaml_input"

definition loadConf :: "yaml_scalars \<Rightarrow> filesystem \<Rightarrow> string \<Rightarrow> error + conf" where
  "loadConf Y fs confPath =
     (if confPath = ''stdin'' then
        (case yaml_Decode Y (Stdin fs) of Inl err \<Rightarrow> Inl err | Inr ret \<Rightarrow> Inr ret)
      else
        (case files fs confPath of
           None \<Rightarrow> Inl OpenFailed
         | Some f \<Rightarrow>
             (case yaml_Decode Y f of Inl err \<Rightarrow> Inl err | Inr ret \<Rightarrow> Inr ret)))"

section \<open>main.go: the program and its clients\<close>

text \<open>
  Modelled from the spec: the states of a client session are declared in a file of the
  repository that is not among the sources verified here. \<^verbatim>\<open>forwardTrack\<close> names
  \<^verbatim>\<open>_CLIENT_STATE_PLAY\<close>, the playing state of the design; the other two stand
  for a session before its PLAY.
\<close>

datatype clientState = CLIENT_STATE_STARTING | CLIENT_STATE_PRE_PLAY | CLIENT_STATE_PLAY

text \<open>
  Modelled from the spec: the struct \<^verbatim>\<open>serverClient\<close> is declared in a file of
  the repository that is not among the sources verified here. These are the fields the
  two files read, with the meaning the design gives them: the path, the state, the peer
  address, the transport chosen for the session, and the binding of each track to the
  client's RTP and RTCP ports. Clients are handled through pointers: \<open>c_ref\<close> is the
  identity of the pointer, and the client's writer queue \<^verbatim>\<open>c.chanWrite\<close> is kept in
  the program's store under that identity. \<^verbatim>\<open>c.streamTracks[id]\<close> has no value for
  a track that was never set up, and reading a field through it panics then.
\<close>

record serverClient =
  c_ref :: nat
  c_path :: string
  c_state :: clientState
  c_ip :: ip
  c_streamProtocol :: streamProtocol
  c_streamTracks :: "int \<rightharpoonup> track"

text \<open>
  \<^verbatim>\<open>udpWrite{addr, buf}\<close>, with the two fields \<^verbatim>\<open>forwardTrack\<close> fills, and the
  RTSP library's \<^verbatim>\<open>InterleavedFrame{Channel, Content}\<close>.
\<close>

record udpWrite =
  addr :: UDPAddr
  buf :: frame

record InterleavedFrame =
  Channel :: int
  Content :: frame

text \<open>
  Modelled from the spec: the struct \<^verbatim>\<open>stream\<close> is declared in a file of the
  repository that is not among the sources verified here. The supervisor touches its
  stop signal only, the channel \<^verbatim>\<open>s.stop\<close>, which is open or closed; \<open>s_created\<close>
  records when the entry was put into the map, for the statement of the design's
  time-to-live invariant.
\<close>

record stream =
  s_stop_closed :: bool
  s_created :: int

text \<open>
  \<^verbatim>\<open>program\<close>. The two maps are association lists in the order the
  \<^verbatim>\<open>range\<close> loop happens to visit them: Go fixes no order, and every statement
  below is made for an arbitrary list. The two UDP endpoints appear with their writer
  queues \<^verbatim>\<open>p.rtpl.chanWrite\<close> and \<^verbatim>\<open>p.rtcpl.chanWrite\<close>; \<open>chanWrite\<close>
  is the store of the clients' own writer queues.
\<close>

record program =
  p_conf :: conf
  protocols :: "streamProtocol set"
  mutex :: rwmutex
  rtpl_chanWrite :: "udpWrite chan"
  rtcpl_chanWrite :: "udpWrite chan"
  clients :: "serverClient list"
  chanWrite :: "nat \<Rightarrow> InterleavedFrame chan"
  streams :: "(string \<times> stream) list"

section \<open>main.go: \<^verbatim>\<open>newProgram\<close> and \<^verbatim>\<open>main\<close>\<close>

text \<open>
  The command-line library: a flag takes its value from the command line when it is
  given there, else from its environment variable when the flag has one and the variable
  is set and not empty, else from its default. The conversions of the value texts are the
  library's and are parameters of the model (\<open>None\<close>: the text is rejected).
\<close>

record flag_parsers =
  parse_int :: "string \<Rightarrow> int64 option"
  parse_duration :: "string \<Rightarrow> int64 option"

definition flag_value ::
  "(string \<rightharpoonup> string) \<Rightarrow> (string \<rightharpoonup> string) \<Rightarrow> string \<Rightarrow> string \<Rightarrow> string option \<Rightarrow> string" where
  "flag_value args env name dflt envar =
     (case args name of
        Some v \<Rightarrow> v
      | None \<Rightarrow>
          (case envar of
             None \<Rightarrow> dflt
           | Some var \<Rightarrow>
               (case env var of
                  None \<Rightarrow> dflt
                | Some v \<Rightarrow> if v = [] then dflt else v)))"

text \<open>
  The six flags as \<^verbatim>\<open>newProgram\<close> declares them, and \<^verbatim>\<open>kingpin.Parse()\<close>,
  which ends the process when a value is rejected (\<open>None\<close>).
\<close>

record flags =
  protocolsStr :: string
  f_rtspPort :: int64
  f_rtpPort :: int64
  f_rtcpPort :: int64
  f_streamReadyTimeout :: int64
  f_streamTTL :: int64

definition kingpin_Parse ::
  "flag_parsers \<Rightarrow> (string \<rightharpoonup> string) \<Rightarrow> (string \<rightharpoonup> string) \<Rightarrow> flags option" where
  "kingpin_Parse K args env =
     (case parse_int K (flag_value args env ''rtsp-port'' ''8554'' (Some ''RTSP_PORT'')) of
        None \<Rightarrow> None | Some rtsp \<Rightarrow>
     (case parse_int K (flag_value args env ''rtp-port'' ''8050'' (Some ''RTP_PORT'')) of
        None \<Rightarrow> None | Some rtp \<Rightarrow>
     (case parse_int K (flag_value args env ''rtcp-port'' ''8051'' (Some ''RTP_PORT'')) of
        None \<Rightarrow> None | Some rtcp \<Rightarrow>
     (case parse_duration K (flag_value args env ''stream-ready-timeout'' ''10s'' None) of
        None \<Rightarrow> None | Some ready \<Rightarrow>
     (case parse_duration K (flag_value args env ''stream-ttl'' ''10s'' None) of
        None \<Rightarrow> None | Some ttl \<Rightarrow>
        Some \<lparr>protocolsStr = flag_value args env ''protocols'' ''tcp,udp'' (Some ''PROTOCOLS''),
              f_rtspPort = rtsp, f_rtpPort = rtp, f_rtcpPort = rtcp,
              f_streamReadyTimeout = ready, f_streamTTL = ttl\<rparr>)))))"

text \<open>The loop over \<^verbatim>\<open>conf.Protocols\<close> that fills the protocol set.\<close>

fun protocols_range :: "string list \<Rightarrow> streamProtocol set \<Rightarrow> error + streamProtocol set" where
  "protocols_range [] acc = Inr acc"
| "protocols_range (proto # ps) acc =
     (if proto = ''udp'' then protocols_range ps (insert STREAM_PROTOCOL_UDP acc)
      else if proto = ''tcp'' then protocols_range ps (insert STREAM_PROTOCOL_TCP acc)
      else Inl (UnsupportedProtocol proto))"

text \<open>
  Modelled from the spec: \<^verbatim>\<open>newServerUdpListener\<close> and
  \<^verbatim>\<open>newServerTcpListener\<close> are called by \<^verbatim>\<open>newProgram\<close> but defined in files
  of the repository that are not among the sources verified here. Each binds its port and fails when the port cannot be bound
  (the error kind Bind of the design); a UDP endpoint starts with an empty writer queue
  of some fixed bound.
\<close>

record sockets =
  udp_free :: "int64 \<Rightarrow> bool"
  tcp_free :: "int64 \<Rightarrow> bool"
  writer_room :: nat

definition newServerUdpListener :: "sockets \<Rightarrow> int64 \<Rightarrow> error + udpWrite chan" where
  "newServerUdpListener os port =
     (if udp_free os port then Inr \<lparr>room = writer_room os, queued = []\<rparr> else Inl ListenFailed)"

definition newServerTcpListener :: "sockets \<Rightarrow> int64 \<Rightarrow> error + unit" where
  "newServerTcpListener os port = (if tcp_free os port then Inr () else Inl ListenFailed)"

datatype newProgram_result = KingpinExit | Failed error | Created program

definition newProgram_conf :: "flags \<Rightarrow> conf" where
  "newProgram_conf f =
     \<lparr>Protocols = strings_Split_comma (protocolsStr f),
      RtspPort = f_rtspPort f,
      RtpPort = f_rtpPort f,
      RtcpPort = f_rtcpPort f,
      StreamReadyTimeout = f_streamReadyTimeout f,
      StreamTTL = f_streamTTL f\<rparr>"

definition newProgram_checked :: "sockets \<Rightarrow> conf \<Rightarrow> error + program" where
  "newProgram_checked os c =
     (if RtspPort c = 0 then Inl RtspPortNotProvided
      else if RtpPort c = 0 then Inl RtpPortNotProvided
      else if RtcpPort c = 0 then Inl RtcpPortNotProvided
      else if go_rem (RtpPort c) 2 \<noteq> 0 then Inl RtpPortNotEven
      else if RtcpPort c \<noteq> RtpPort c + 1 then Inl RtcpPortNotRtpPlus1
      else if StreamReadyTimeout c <s Second then Inl TooSmallStreamReadyTimeout
      else if StreamTTL c <s Second then Inl TooSmallStreamTTL
      else
        (case protocols_range (Protocols c) {} of
           Inl e \<Rightarrow> Inl e
         | Inr protos \<Rightarrow>
             if protos = {} then Inl NoProtocolsProvided
             else
               (case newServerUdpListener os (RtpPort c) of Inl err \<Rightarrow> Inl err | Inr rtpl \<Rightarrow>
               (case newServerUdpListener os (RtcpPort c) of Inl err \<Rightarrow> Inl err | Inr rtcpl \<Rightarrow>
               (case newServerTcpListener os (RtspPort c) of Inl err \<Rightarrow> Inl err | Inr rtspl \<Rightarrow>
                  Inr \<lparr>p_conf = c, protocols = protos,
                       mutex = \<lparr>writer = False, readers = 0\<rparr>,
                       rtpl_chanWrite = rtpl, rtcpl_chanWrite = rtcpl,
                       clients = [],
                       chanWrite = (\<lambda>r. \<lparr>room = 0, queued = []\<rparr>),
                       streams = []\<rparr>)))))"

definition newProgram ::
  "flag_parsers \<Rightarrow> sockets \<Rightarrow> (string \<rightharpoonup> string) \<Rightarrow> (string \<rightharpoonup> string) \<Rightarrow> newProgram_result" where
  "newProgram K os args env =
     (case kingpin_Parse K args env of
        None \<Rightarrow> KingpinExit
      | Some f \<Rightarrow>
          (case newProgram_checked os (newProgram_conf f) of
             Inl err \<Rightarrow> Failed err
           | Inr p \<Rightarrow> Created p))"

text \<open>
  \<^verbatim>\<open>main\<close>: \<^verbatim>\<open>log.Fatal\<close> ends the process with status 1, as the flag parser
  does on a rejected value; otherwise \<^verbatim>\<open>p.run()\<close> serves and does not return.
\<close>

datatype process = Exit int | Serving program

definition main ::
  "flag_parsers \<Rightarrow> sockets \<Rightarrow> (string \<rightharpoonup> string) \<Rightarrow> (string \<rightharpoonup> string) \<Rightarrow> process" where
  "main K os args env =
     (case newProgram K os args env of
        KingpinExit \<Rightarrow> Exit 1
      | Failed err \<Rightarrow> Exit 1
      | Created p \<Rightarrow> Serving p)"

section \<open>main.go: the supervisor started by \<^verbatim>\<open>newProgram\<close>\<close>

text \<open>
  The goroutine owns the map \<^verbatim>\<open>streamsClientLastTime\<close> and shares the program.
  \<open>effects\<close> lists, in the order they happen, the stream's log line, the closing of
  its stop channel and the two deletions.
\<close>

datatype effect = Log string | CloseStop string | DeleteStream string | DeleteLastTime string

record supervised = program +
  streamsClientLastTime :: "(string \<times> int) list"
  effects :: "effect list"

text \<open>The first loop: \<^verbatim>\<open>streamsClientLastTime[c.path] = time.Now()\<close> for every client.\<close>

fun stamp_range :: "int \<Rightarrow> serverClient list \<Rightarrow> (string \<times> int) list \<Rightarrow> (string \<times> int) list" where
  "stamp_range now [] lt = lt"
| "stamp_range now (c # cs) lt = stamp_range now cs (AList.update (c_path c) now lt)"

text \<open>
  The second loop, over the entries the map holds when the loop starts; the body deletes
  nothing but the entry it is visiting. Closing a channel that is closed already panics.
\<close>

fun expire_range :: "int \<Rightarrow> (string \<times> int) list \<Rightarrow> supervised \<Rightarrow> supervised option" where
  "expire_range now [] sv = Some sv"
| "expire_range now ((path, lastTime) # es) sv =
     (if sint (StreamTTL (p_conf sv)) \<le> time_Sub now lastTime then
        (case map_of (streams sv) path of
           None \<Rightarrow> expire_range now es sv
         | Some s \<Rightarrow>
             if s_stop_closed s then None
             else expire_range now es
                    (sv\<lparr>effects := effects sv @
                          [Log path, CloseStop path, DeleteStream path, DeleteLastTime path],
                        streams := AList.delete path (streams sv),
                        streamsClientLastTime := AList.delete path (streamsClientLastTime sv)\<rparr>))
      else expire_range now es sv)"

text \<open>
  One tick, at the instant \<open>now\<close>: the tick holds the write lock from its first statement
  to its last, and its readings of the clock are taken to be one instant.
\<close>

datatype tick_outcome = Ticked supervised | TickWaits | TickPanics

definition tick :: "int \<Rightarrow> supervised \<Rightarrow> tick_outcome" where
  "tick now sv =
     (case Lock (mutex sv) of
        None \<Rightarrow> TickWaits
      | Some m \<Rightarrow>
          (let sv1 = sv\<lparr>mutex := m,
                        streamsClientLastTime :=
                          stamp_range now (clients sv) (streamsClientLastTime sv)\<rparr>
           in case expire_range now (streamsClientLastTime sv1) sv1 of
                None \<Rightarrow> TickPanics
              | Some sv2 \<Rightarrow> Ticked (sv2\<lparr>mutex := Unlock (mutex sv2)\<rparr>)))"

text \<open>
  Modelled from the spec: the code that accepts clients and creates streams is in files
  of the repository that are not among the sources verified here. A client session exists from its connection to its end, and a
  stream is created on the first client subscribing to its path. \<open>Advance\<close> lets the
  clock run, \<open>Tick\<close> is the supervisor's tick at the current instant.
\<close>

datatype event =
    Advance nat
  | Tick
  | ClientConnects serverClient
  | ClientLeaves nat
  | StreamCreated string

record world =
  w_sv :: supervised
  clock :: int

definition after_tick :: "world \<Rightarrow> world" where
  "after_tick w =
     (case tick (clock w) (w_sv w) of
        Ticked sv \<Rightarrow> w\<lparr>w_sv := sv\<rparr>
      | TickWaits \<Rightarrow> w
      | TickPanics \<Rightarrow> w)"

fun step :: "world \<Rightarrow> event \<Rightarrow> world" where
  "step w (Advance d) = w\<lparr>clock := clock w + int d\<rparr>"
| "step w Tick = after_tick w"
| "step w (ClientConnects c) = w\<lparr>w_sv := (w_sv w)\<lparr>clients := c # clients (w_sv w)\<rparr>\<rparr>"
| "step w (ClientLeaves r) =
     w\<lparr>w_sv := (w_sv w)\<lparr>clients := filter (\<lambda>c. c_ref c \<noteq> r) (clients (w_sv w))\<rparr>\<rparr>"
| "step w (StreamCreated path) =
     (case map_of (streams (w_sv w)) path of
        None \<Rightarrow>
          w\<lparr>w_sv := (w_sv w)\<lparr>streams :=
                (path, \<lparr>s_stop_closed = False, s_created = clock w\<rparr>) # streams (w_sv w)\<rparr>\<rparr>
      | Some s \<Rightarrow> w)"

definition run_events :: "world \<Rightarrow> event list \<Rightarrow> world" where
  "run_events w evs = foldl step w evs"

text \<open>
  The invariant as the design words it: for every stream in the map, the current instant
  minus the later of its last-seen stamp and its creation is below the time to live, or
  its stop has been signalled.
\<close>

definition ttl_invariant :: "world \<Rightarrow> bool" where
  "ttl_invariant w =
     list_all
       (\<lambda>(path, s).
          clock w - max (case map_of (streamsClientLastTime (w_sv w)) path of
                           None \<Rightarrow> s_created s
                         | Some t \<Rightarrow> t) (s_created s)
            < sint (StreamTTL (p_conf (w_sv w)))
          \<or> s_stop_closed s)
       (streams (w_sv w))"

section \<open>main.go: \<^verbatim>\<open>forwardTrack\<close>\<close>

text \<open>
  Modelled from the spec: \<^verbatim>\<open>trackToInterleavedChannel\<close> is called by
  \<^verbatim>\<open>forwardTrack\<close> but defined in a file of the repository that is not among the
  sources verified here. The design fixes
  what it returns: for track \<open>i\<close>, RTP channel = \<open>2i\<close>, RTCP channel = \<open>2i+1\<close>.
\<close>

definition trackToInterleavedChannel :: "int \<Rightarrow> trackFlow \<Rightarrow> int" where
  "trackToInterleavedChannel i flow = (if flow = TRACK_FLOW_RTP then 2 * i else 2 * i + 1)"

text \<open>
  What a call of \<^verbatim>\<open>forwardTrack\<close> comes to: it returns; or it is parked on a send
  to a queue without room, in the state it has reached, and has not returned; or it
  panics on the lookup of a track that has no value.
\<close>

datatype fwd_outcome = Returned program | Parked program | Panicked program

fun forwardTrack_range ::
  "serverClient list \<Rightarrow> program \<Rightarrow> string \<Rightarrow> int \<Rightarrow> trackFlow \<Rightarrow> frame \<Rightarrow> fwd_outcome" where
  "forwardTrack_range [] p path i flow fr = Returned p"
| "forwardTrack_range (c # cs) p path i flow fr =
     (if c_path c = path \<and> c_state c = CLIENT_STATE_PLAY then
        (if c_streamProtocol c = STREAM_PROTOCOL_UDP then
           (if flow = TRACK_FLOW_RTP then
              (case c_streamTracks c i of
                 None \<Rightarrow> Panicked p
               | Some t \<Rightarrow>
                   (case chan_send (rtpl_chanWrite p)
                           \<lparr>addr = \<lparr>IP = c_ip c, Port = rtpPort t\<rparr>, buf = fr\<rparr> of
                      None \<Rightarrow> Parked p
                    | Some q \<Rightarrow> forwardTrack_range cs (p\<lparr>rtpl_chanWrite := q\<rparr>) path i flow fr))
            else
              (case c_streamTracks c i of
                 None \<Rightarrow> Panicked p
               | Some t \<Rightarrow>
                   (case chan_send (rtcpl_chanWrite p)
                           \<lparr>addr = \<lparr>IP = c_ip c, Port = rtcpPort t\<rparr>, buf = fr\<rparr> of
                      None \<Rightarrow> Parked p
                    | Some q \<Rightarrow> forwardTrack_range cs (p\<lparr>rtcpl_chanWrite := q\<rparr>) path i flow fr)))
         else
           (case chan_send (chanWrite p (c_ref c))
                   \<lparr>Channel = trackToInterleavedChannel i flow, Content = fr\<rparr> of
              None \<Rightarrow> Parked p
            | Some q \<Rightarrow>
                forwardTrack_range cs (p\<lparr>chanWrite := (chanWrite p)(c_ref c := q)\<rparr>) path i flow fr))
      else forwardTrack_range cs p path i flow fr)"

definition forwardTrack :: "program \<Rightarrow> string \<Rightarrow> int \<Rightarrow> trackFlow \<Rightarrow> frame \<Rightarrow> fwd_outcome" where
  "forwardTrack p path i flow fr = forwardTrack_range (clients p) p path i flow fr"

section \<open>stream-udpl.go: the read loop\<close>

datatype streamUdpListenerState = UDPL_STATE_STARTING | UDPL_STATE_RUNNING

text \<open>
  \<^verbatim>\<open>streamUdpListener\<close> without its pointers to the program and to the socket;
  \<open>l_mutex\<close> tells whether the listener's own mutex is held by someone else.
\<close>

record streamUdpListener =
  l_state :: streamUdpListenerState
  publisherIp :: ip
  publisherPort :: int
  l_trackId :: int
  l_flow :: trackFlow
  l_path :: string
  l_mutex :: bool
  lastFrameTime :: int

text \<open>
  The state the loop works on: the program, the listener, the number of byte arrays
  \<^verbatim>\<open>make\<close> has allocated so far (the next array gets that number), and the calls of
  \<^verbatim>\<open>forwardTrack\<close> the loop has made, oldest first.
\<close>

type_synonym forward_call = "string \<times> int \<times> trackFlow \<times> frame"

record run_state =
  rs_p :: program
  rs_l :: streamUdpListener
  allocated :: nat
  forwards :: "forward_call list"

text \<open>What the socket hands to one \<^verbatim>\<open>ReadFromUDP\<close>: a datagram with its source, or an error.\<close>

datatype udp_read = Received "byte list" UDPAddr | ReadFailed

text \<open>
  Where one pass through the loop body leaves the goroutine: back at the top of the loop;
  out of the loop (the deferred send on \<^verbatim>\<open>chanDone\<close> follows); waiting for a lock;
  parked inside \<^verbatim>\<open>forwardTrack\<close> with the read lock taken; or unwinding a panic.
\<close>

datatype run_outcome =
    Again run_state
  | Left run_state
  | AwaitsLock run_state
  | AwaitsQueue run_state
  | Unwinds run_state

definition run_body :: "run_state \<Rightarrow> int \<Rightarrow> udp_read \<Rightarrow> run_outcome" where
  "run_body s now rd =
     (let b = allocated s;
          s1 = s\<lparr>allocated := Suc b\<rparr>;
          l = rs_l s;
          p = rs_p s
      in case rd of
           ReadFailed \<Rightarrow> Left s1
         | Received payload src \<Rightarrow>
             (let (n, bytes) = ReadFromUDP (replicate 2048 0) payload in
              if \<not> IP_Equal (publisherIp l) (IP src) \<or> Port src \<noteq> publisherPort l then Again s1
              else
                (case RLock (mutex p) of
                   None \<Rightarrow> AwaitsLock s1
                 | Some m \<Rightarrow>
                     (let fr = \<lparr>backing = b, content = take n bytes\<rparr>;
                          s2 = s1\<lparr>forwards := forwards s1 @ [(l_path l, l_trackId l, l_flow l, fr)]\<rparr>
                      in case forwardTrack (p\<lparr>mutex := m\<rparr>) (l_path l) (l_trackId l) (l_flow l) fr of
                           Parked p' \<Rightarrow> AwaitsQueue (s2\<lparr>rs_p := p'\<rparr>)
                         | Panicked p' \<Rightarrow> Unwinds (s2\<lparr>rs_p := p'\<lparr>mutex := RUnlock (mutex p')\<rparr>\<rparr>)
                         | Returned p' \<Rightarrow>
                             (let s3 = s2\<lparr>rs_p := p'\<lparr>mutex := RUnlock (mutex p')\<rparr>\<rparr>
                              in if l_mutex l then AwaitsLock s3
                                 else Again (s3\<lparr>rs_l := l\<lparr>lastFrameTime := now\<rparr>\<rparr>))))))"

text \<open>
  The loop, over what the socket delivers and the instants at which the passes read the
  clock. With nothing more to read the goroutine waits in \<^verbatim>\<open>ReadFromUDP\<close>, at the
  top of the loop.
\<close>

fun run :: "run_state \<Rightarrow> (int \<times> udp_read) list \<Rightarrow> run_outcome" where
  "run s [] = Again s"
| "run s ((now, rd) # evs) =
     (case run_body s now rd of
        Again s' \<Rightarrow> run s' evs
      | Left s' \<Rightarrow> Left s'
      | AwaitsLock s' \<Rightarrow> AwaitsLock s'
      | AwaitsQueue s' \<Rightarrow> AwaitsQueue s'
      | Unwinds s' \<Rightarrow> Unwinds s')"

fun outcome_state :: "run_outcome \<Rightarrow> run_state" where
  "outcome_state (Again s) = s"
| "outcome_state (Left s) = s"
| "outcome_state (AwaitsLock s) = s"
| "outcome_state (AwaitsQueue s) = s"
| "outcome_state (Unwinds s) = s"

section \<open>stream-udpl.go: \<^verbatim>\<open>start\<close>, \<^verbatim>\<open>run\<close> and \<^verbatim>\<open>close\<close> side by side\<close>

text \<open>
  The goroutine of \<^verbatim>\<open>run\<close> and the caller of \<^verbatim>\<open>close\<close> run concurrently, so
  they are modelled as two program counters over the listener's shared fields, one
  transition for each statement that touches shared state.
  \<^item> \<^verbatim>\<open>run\<close>: not started; at \<^verbatim>\<open>ReadFromUDP\<close>; holding a datagram of the publisher,
    about to call \<^verbatim>\<open>forwardTrack\<close>; out of the loop, in the deferred send on the
    unbuffered \<^verbatim>\<open>chanDone\<close>; finished.
  \<^item> \<^verbatim>\<open>close\<close>: not called; past \<^verbatim>\<open>l.nconn.Close()\<close>; in the receive from
    \<^verbatim>\<open>chanDone\<close>; returned after that receive; returned without it.
  \<open>t_late\<close> counts the calls of \<^verbatim>\<open>forwardTrack\<close> made after \<^verbatim>\<open>close\<close> returned.
\<close>

datatype run_pc = RunNotStarted | RunReading | RunForwarding | RunSendingDone | RunFinished

datatype close_pc =
  CloseNotCalled | ClosePastSocket | CloseReceiving | CloseReturnedAfterDone | CloseReturnedAtOnce

record udpl_threads =
  t_state :: streamUdpListenerState
  t_nconn_closed :: bool
  t_run :: run_pc
  t_close :: close_pc
  t_forwarded :: nat
  t_late :: nat

definition close_returned :: "udpl_threads \<Rightarrow> bool" where
  "close_returned s \<longleftrightarrow> t_close s = CloseReturnedAfterDone \<or> t_close s = CloseReturnedAtOnce"

definition udpl_init :: udpl_threads where
  "udpl_init = \<lparr>t_state = UDPL_STATE_STARTING, t_nconn_closed = False, t_run = RunNotStarted,
                 t_close = CloseNotCalled, t_forwarded = 0, t_late = 0\<rparr>"

inductive udpl_step :: "udpl_threads \<Rightarrow> udpl_threads \<Rightarrow> bool" where
  start_state:
    "t_run s = RunNotStarted \<Longrightarrow> t_state s = UDPL_STATE_STARTING \<Longrightarrow>
     udpl_step s (s\<lparr>t_state := UDPL_STATE_RUNNING\<rparr>)"
| start_go:
    "t_run s = RunNotStarted \<Longrightarrow> t_state s = UDPL_STATE_RUNNING \<Longrightarrow>
     udpl_step s (s\<lparr>t_run := RunReading\<rparr>)"
| read_other:
    "t_run s = RunReading \<Longrightarrow> \<not> t_nconn_closed s \<Longrightarrow> udpl_step s s"
| read_publisher:
    "t_run s = RunReading \<Longrightarrow> \<not> t_nconn_closed s \<Longrightarrow>
     udpl_step s (s\<lparr>t_run := RunForwarding\<rparr>)"
| read_error:
    "t_run s = RunReading \<Longrightarrow> udpl_step s (s\<lparr>t_run := RunSendingDone\<rparr>)"
| forward:
    "t_run s = RunForwarding \<Longrightarrow>
     udpl_step s (s\<lparr>t_run := RunReading, t_forwarded := Suc (t_forwarded s),
                    t_late := (if close_returned s then Suc (t_late s) else t_late s)\<rparr>)"
| forward_panic:
    "t_run s = RunForwarding \<Longrightarrow>
     udpl_step s (s\<lparr>t_run := RunSendingDone, t_forwarded := Suc (t_forwarded s),
                    t_late := (if close_returned s then Suc (t_late s) else t_late s)\<rparr>)"
| close_socket:
    "t_close s = CloseNotCalled \<Longrightarrow>
     udpl_step s (s\<lparr>t_nconn_closed := True, t_close := ClosePastSocket\<rparr>)"
| close_running:
    "t_close s = ClosePastSocket \<Longrightarrow> t_state s = UDPL_STATE_RUNNING \<Longrightarrow>
     udpl_step s (s\<lparr>t_close := CloseReceiving\<rparr>)"
| close_starting:
    "t_close s = ClosePastSocket \<Longrightarrow> t_state s = UDPL_STATE_STARTING \<Longrightarrow>
     udpl_step s (s\<lparr>t_close := CloseReturnedAtOnce\<rparr>)"
| done_handover:
    "t_run s = RunSendingDone \<Longrightarrow> t_close s = CloseReceiving \<Longrightarrow>
     udpl_step s (s\<lparr>t_run := RunFinished, t_close := CloseReturnedAfterDone\<rparr>)"

inductive udpl_reachable :: "udpl_threads \<Rightarrow> bool" where
  init: "udpl_reachable udpl_init"
| step: "udpl_reachable s \<Longrightarrow> udpl_step s s' \<Longrightarrow> udpl_reachable s'"

section \<open>Notions used in the statements about the fan-out\<close>

text \<open>A subscriber of a path: a client on that path, in the playing state.\<close>

definition subscribed :: "string \<Rightarrow> serverClient \<Rightarrow> bool" where
  "subscribed path c \<longleftrightarrow> c_path c = path \<and> c_state c = CLIENT_STATE_PLAY"

text \<open>
  The datagram a UDP subscriber is due for a packet of track \<open>i\<close>: to the client's
  address, at the RTP or the RTCP port of the client's binding for the track.
\<close>

definition udp_datagram :: "int \<Rightarrow> trackFlow \<Rightarrow> frame \<Rightarrow> serverClient \<Rightarrow> udpWrite" where
  "udp_datagram i flow fr c =
     \<lparr>addr = \<lparr>IP = c_ip c,
              Port = (if flow = TRACK_FLOW_RTP then rtpPort (the (c_streamTracks c i))
                      else rtcpPort (the (c_streamTracks c i)))\<rparr>,
      buf = fr\<rparr>"

text \<open>
  What the writer queue of a UDP endpoint is due: one datagram for each UDP subscriber,
  when the packet's flow is the endpoint's, and nothing otherwise.
\<close>

definition udp_datagrams ::
  "trackFlow \<Rightarrow> string \<Rightarrow> int \<Rightarrow> trackFlow \<Rightarrow> frame \<Rightarrow> serverClient list \<Rightarrow> udpWrite list" where
  "udp_datagrams endpoint path i flow fr cs =
     (if flow = endpoint then
        map (udp_datagram i flow fr)
          (filter (\<lambda>c. subscribed path c \<and> c_streamProtocol c = STREAM_PROTOCOL_UDP) cs)
      else [])"

text \<open>
  What the writer queue of the client with identity \<open>r\<close> is due: an interleaved frame
  on channel \<open>2i\<close> or \<open>2i+1\<close> when that client is a TCP subscriber, and nothing otherwise.
\<close>

definition tcp_frames ::
  "nat \<Rightarrow> string \<Rightarrow> int \<Rightarrow> trackFlow \<Rightarrow> frame \<Rightarrow> serverClient list \<Rightarrow> InterleavedFrame list" where
  "tcp_frames r path i flow fr cs =
     map (\<lambda>c. \<lparr>Channel = (if flow = TRACK_FLOW_RTP then 2 * i else 2 * i + 1), Content = fr\<rparr>)
       (filter (\<lambda>c. subscribed path c \<and> c_streamProtocol c = STREAM_PROTOCOL_TCP \<and> c_ref c = r) cs)"

definition enqueue :: "'a chan \<Rightarrow> 'a list \<Rightarrow> 'a chan" where
  "enqueue ch vs = ch\<lparr>queued := queued ch @ vs\<rparr>"

text \<open>The program after every subscriber has been sent the packet.\<close>

definition fanned_out ::
  "serverClient list \<Rightarrow> program \<Rightarrow> string \<Rightarrow> int \<Rightarrow> trackFlow \<Rightarrow> frame \<Rightarrow> program" where
  "fanned_out cs p path i flow fr =
     p\<lparr>rtpl_chanWrite := enqueue (rtpl_chanWrite p) (udp_datagrams TRACK_FLOW_RTP path i flow fr cs),
       rtcpl_chanWrite := enqueue (rtcpl_chanWrite p) (udp_datagrams TRACK_FLOW_RTCP path i flow fr cs),
       chanWrite := (\<lambda>r. enqueue (chanWrite p r) (tcp_frames r path i flow fr cs))\<rparr>"

text \<open>Every UDP subscriber has a binding for track \<open>i\<close>.\<close>

definition tracks_bound :: "string \<Rightarrow> int \<Rightarrow> serverClient list \<Rightarrow> bool" where
  "tracks_bound path i cs \<longleftrightarrow>
     list_all (\<lambda>c. subscribed path c \<and> c_streamProtocol c = STREAM_PROTOCOL_UDP
                   \<longrightarrow> c_streamTracks c i \<noteq> None) cs"

text \<open>Every queue has room for what it is due.\<close>

definition fits :: "'a chan \<Rightarrow> 'a list \<Rightarrow> bool" where
  "fits ch vs \<longleftrightarrow> vs = [] \<or> length (queued ch) + length vs \<le> room ch"

definition has_room ::
  "serverClient list \<Rightarrow> program \<Rightarrow> string \<Rightarrow> int \<Rightarrow> trackFlow \<Rightarrow> frame \<Rightarrow> bool" where
  "has_room cs p path i flow fr \<longleftrightarrow>
     fits (rtpl_chanWrite p) (udp_datagrams TRACK_FLOW_RTP path i flow fr cs) \<and>
     fits (rtcpl_chanWrite p) (udp_datagrams TRACK_FLOW_RTCP path i flow fr cs) \<and>
     list_all (\<lambda>c. fits (chanWrite p (c_ref c)) (tcp_frames (c_ref c) path i flow fr cs)) cs"

text \<open>The queue \<^verbatim>\<open>forwardTrack\<close> sends to for client \<open>c\<close> has no room.\<close>

definition queue_full :: "serverClient \<Rightarrow> program \<Rightarrow> trackFlow \<Rightarrow> bool" where
  "queue_full c p flow \<longleftrightarrow>
     (if c_streamProtocol c = STREAM_PROTOCOL_UDP then
        (if flow = TRACK_FLOW_RTP
         then room (rtpl_chanWrite p) \<le> length (queued (rtpl_chanWrite p))
         else room (rtcpl_chanWrite p) \<le> length (queued (rtcpl_chanWrite p)))
      else room (chanWrite p (c_ref c)) \<le> length (queued (chanWrite p (c_ref c))))"

text \<open>Auxiliary: one client's share of \<open>fanned_out\<close>, and the two ways a client stops the loop.\<close>

definition after_client ::
  "serverClient \<Rightarrow> program \<Rightarrow> string \<Rightarrow> int \<Rightarrow> trackFlow \<Rightarrow> frame \<Rightarrow> program" where
  "after_client c p path i flow fr =
     (if \<not> subscribed path c then p
      else if c_streamProtocol c = STREAM_PROTOCOL_UDP then
        (if flow = TRACK_FLOW_RTP
         then p\<lparr>rtpl_chanWrite := enqueue (rtpl_chanWrite p) [udp_datagram i flow fr c]\<rparr>
         else p\<lparr>rtcpl_chanWrite := enqueue (rtcpl_chanWrite p) [udp_datagram i flow fr c]\<rparr>)
      else p\<lparr>chanWrite := (chanWrite p)(c_ref c :=
               enqueue (chanWrite p (c_ref c))
                 [\<lparr>Channel = trackToInterleavedChannel i flow, Content = fr\<rparr>])\<rparr>)"

definition unbound :: "serverClient \<Rightarrow> string \<Rightarrow> int \<Rightarrow> bool" where
  "unbound c path i \<longleftrightarrow>
     subscribed path c \<and> c_streamProtocol c = STREAM_PROTOCOL_UDP \<and> c_streamTracks c i = None"

definition fits_all ::
  "serverClient list \<Rightarrow> program \<Rightarrow> string \<Rightarrow> int \<Rightarrow> trackFlow \<Rightarrow> frame \<Rightarrow> bool" where
  "fits_all cs p path i flow fr \<longleftrightarrow>
     fits (rtpl_chanWrite p) (udp_datagrams TRACK_FLOW_RTP path i flow fr cs) \<and>
     fits (rtcpl_chanWrite p) (udp_datagrams TRACK_FLOW_RTCP path i flow fr cs) \<and>
     (\<forall>r. fits (chanWrite p r) (tcp_frames r path i flow fr cs))"

section \<open>Notions used in the statements about the supervisor\<close>

text \<open>The last-seen map after the first loop of a tick.\<close>

definition stamped :: "int \<Rightarrow> supervised \<Rightarrow> (string \<times> int) list" where
  "stamped now sv = stamp_range now (clients sv) (streamsClientLastTime sv)"

text \<open>
  The paths a tick retires, in the order it visits them: the entries whose stamp is at
  least the time to live old and whose path has a stream.
\<close>

definition expiring :: "int \<Rightarrow> int \<Rightarrow> (string \<times> stream) list \<Rightarrow> (string \<times> int) list \<Rightarrow> string list" where
  "expiring now ttl strs es =
     map fst (filter (\<lambda>(path, lastTime). ttl \<le> time_Sub now lastTime \<and> map_of strs path \<noteq> None) es)"

definition retired :: "int \<Rightarrow> supervised \<Rightarrow> string list" where
  "retired now sv = expiring now (sint (StreamTTL (p_conf sv))) (streams sv) (stamped now sv)"

definition retirement :: "string \<Rightarrow> effect list" where
  "retirement path = [Log path, CloseStop path, DeleteStream path, DeleteLastTime path]"

definition unlocked :: "rwmutex \<Rightarrow> bool" where
  "unlocked m \<longleftrightarrow> \<not> writer m \<and> readers m = 0"

definition stops_open :: "(string \<times> stream) list \<Rightarrow> bool" where
  "stops_open strs \<longleftrightarrow> list_all (\<lambda>(path, s). \<not> s_stop_closed s) strs"

section \<open>Notions used in the statements about the listener\<close>

text \<open>Every frame the loop has forwarded so far lies in an array allocated before now.\<close>

definition call_frame :: "forward_call \<Rightarrow> frame" where
  "call_frame call = snd (snd (snd call))"

definition fresh :: "run_state \<Rightarrow> bool" where
  "fresh s \<longleftrightarrow> list_all (\<lambda>call. backing (call_frame call) < allocated s) (forwards s)"

definition from_publisher :: "streamUdpListener \<Rightarrow> UDPAddr \<Rightarrow> bool" where
  "from_publisher l src \<longleftrightarrow> IP_Equal (publisherIp l) (IP src) \<and> Port src = publisherPort l"

text \<open>
  The rest of a pass through the loop body once the call of \<^verbatim>\<open>forwardTrack\<close> has come
  to \<open>out\<close>: the call is logged, the read lock is released unless the call is parked, and the
  time of the last frame is set when the call returned.
\<close>

definition after_forward :: "run_state \<Rightarrow> int \<Rightarrow> frame \<Rightarrow> fwd_outcome \<Rightarrow> run_outcome" where
  "after_forward s now fr out =
     (let s2 = s\<lparr>allocated := Suc (allocated s),
                 forwards := forwards s @ [(l_path (rs_l s), l_trackId (rs_l s), l_flow (rs_l s), fr)]\<rparr>
      in case out of
           Parked p' \<Rightarrow> AwaitsQueue (s2\<lparr>rs_p := p'\<rparr>)
         | Panicked p' \<Rightarrow> Unwinds (s2\<lparr>rs_p := p'\<lparr>mutex := RUnlock (mutex p')\<rparr>\<rparr>)
         | Returned p' \<Rightarrow>
             (if l_mutex (rs_l s) then AwaitsLock (s2\<lparr>rs_p := p'\<lparr>mutex := RUnlock (mutex p')\<rparr>\<rparr>)
              else Again (s2\<lparr>rs_p := p'\<lparr>mutex := RUnlock (mutex p')\<rparr>,
                              rs_l := (rs_l s)\<lparr>lastFrameTime := now\<rparr>\<rparr>)))"

text \<open>
  No two frames the loop has forwarded share an array, and every one of them lies in an
  array allocated before now.
\<close>

definition unshared :: "run_state \<Rightarrow> bool" where
  "unshared s \<longleftrightarrow> fresh s \<and> distinct (map (\<lambda>call. backing (call_frame call)) (forwards s))"

text \<open>The invariant of the two program counters.\<close>

definition udpl_inv :: "udpl_threads \<Rightarrow> bool" where
  "udpl_inv s \<longleftrightarrow>
     (t_state s = UDPL_STATE_STARTING \<longrightarrow> t_run s = RunNotStarted) \<and>
     (t_run s = RunNotStarted \<longrightarrow> t_forwarded s = 0) \<and>
     (t_close s \<noteq> CloseNotCalled \<longrightarrow> t_nconn_closed s) \<and>
     (t_close s = CloseReturnedAfterDone \<longrightarrow> t_run s = RunFinished) \<and>
     (t_close s = CloseReturnedAtOnce \<longrightarrow>
        t_run s \<noteq> RunForwarding \<and> t_run s \<noteq> RunFinished \<and> t_forwarded s = 0) \<and>
     t_late s = 0"

section \<open>Notions used in the statements about the configuration\<close>

text \<open>The protocol set a list of valid tokens stands for.\<close>

definition protocol_set :: "string list \<Rightarrow> streamProtocol set" where
  "protocol_set ps =
     (if ''udp'' \<in> set ps then {STREAM_PROTOCOL_UDP} else {}) \<union>
     (if ''tcp'' \<in> set ps then {STREAM_PROTOCOL_TCP} else {})"

text \<open>The constraints of the design on a configuration, each negated.\<close>

definition conf_violation :: "conf \<Rightarrow> bool" where
  "conf_violation c \<longleftrightarrow>
     RtspPort c = 0 \<or> RtpPort c = 0 \<or> RtcpPort c = 0 \<or>
     odd (sint (RtpPort c)) \<or>
     sint (RtcpPort c) \<noteq> sint (RtpPort c) + 1 \<or>
     sint (StreamReadyTimeout c) < 1000000000 \<or>
     sint (StreamTTL c) < 1000000000 \<or>
     list_ex (\<lambda>t. t \<noteq> ''udp'' \<and> t \<noteq> ''tcp'') (Protocols c) \<or>
     protocol_set (Protocols c) = {}"

definition binds_succeed :: "sockets \<Rightarrow> conf \<Rightarrow> bool" where
  "binds_succeed os c \<longleftrightarrow>
     udp_free os (RtpPort c) \<and> udp_free os (RtcpPort c) \<and> tcp_free os (RtspPort c)"

text \<open>What \<^verbatim>\<open>loadConf\<close> reads for a path, when it can be opened.\<close>

definition conf_source :: "filesystem \<Rightarrow> string \<Rightarrow> yaml_input option" where
  "conf_source fs confPath = (if confPath = ''stdin'' then Some (Stdin fs) else files fs confPath)"

definition with_input :: "filesystem \<Rightarrow> string \<Rightarrow> yaml_input \<Rightarrow> filesystem" where
  "with_input fs confPath inp =
     (if confPath = ''stdin'' then fs\<lparr>Stdin := inp\<rparr> else fs\<lparr>files := (files fs)(confPath \<mapsto> inp)\<rparr>)"

section \<open>Example libraries, documents and states\<close>

text \<open>
  A plain instance of the libraries' conversions, for the examples: unsigned decimal
  integers, durations in whole seconds, and every scalar as its own text.
\<close>

fun position :: "char \<Rightarrow> string \<Rightarrow> nat option" where
  "position c [] = None"
| "position c (d # ds) = (if c = d then Some 0 else map_option Suc (position c ds))"

definition digit :: "char \<Rightarrow> nat option" where
  "digit c = position c ''0123456789''"

fun decimal :: "string \<Rightarrow> nat \<Rightarrow> nat option" where
  "decimal [] acc = Some acc"
| "decimal (c # cs) acc =
     (case digit c of None \<Rightarrow> None | Some d \<Rightarrow> decimal cs (10 * acc + d))"

definition plain_int :: "string \<Rightarrow> int64 option" where
  "plain_int s =
     (if s = [] then None
      else (case decimal s 0 of
              None \<Rightarrow> None
            | Some n \<Rightarrow> if n < 2 ^ 63 then Some (of_nat n) else None))"

definition plain_duration :: "string \<Rightarrow> int64 option" where
  "plain_duration s =
     (if s \<noteq> [] \<and> last s = CHR ''s''
      then (case plain_int (butlast s) of None \<Rightarrow> None | Some n \<Rightarrow> Some (n * Second))
      else None)"

definition plain_flags :: flag_parsers where
  "plain_flags = \<lparr>parse_int = plain_int, parse_duration = plain_duration\<rparr>"

definition plain_yaml :: yaml_scalars where
  "plain_yaml = \<lparr>yaml_null = (\<lambda>s. s = [] \<or> s = ''~'' \<or> s = ''null''),
                  yaml_int = plain_int, yaml_duration = plain_duration,
                  yaml_string = Some\<rparr>"

definition free_ports :: sockets where
  "free_ports = \<lparr>udp_free = (\<lambda>port. True), tcp_free = (\<lambda>port. True), writer_room = 64\<rparr>"

definition proxy_document :: "string \<Rightarrow> yaml" where
  "proxy_document url =
     YMap [(''protocols'', YSeq [YScalar ''udp'', YScalar ''tcp'']),
           (''streams'',
              YMap [(''cam1'', YMap [(''url'', YScalar url), (''useTcp'', YScalar ''false'')])])]"

definition careless_document :: yaml where
  "careless_document =
     YMap [(''protocols'', YSeq []),
           (''rtspport'', YScalar ''8554''),
           (''rtpport'', YScalar ''8051''),
           (''rtcpport'', YScalar ''9000''),
           (''streamreadytimeout'', YScalar ''0s''),
           (''streamttl'', YScalar ''0s'')]"

definition example_files :: filesystem where
  "example_files =
     \<lparr>Stdin = Document careless_document,
      files = [''a.yml'' \<mapsto> Document (proxy_document ''rtsp://origin-a/live''),
               ''b.yml'' \<mapsto> Document (proxy_document ''rtsp://origin-b/live''),
               ''careless.yml'' \<mapsto> Document careless_document]\<rparr>"

definition default_conf :: conf where
  "default_conf = \<lparr>Protocols = [''tcp'', ''udp''], RtspPort = 8554, RtpPort = 8050,
                    RtcpPort = 8051, StreamReadyTimeout = 10 * Second, StreamTTL = 10 * Second\<rparr>"

definition cam1_udp :: serverClient where
  "cam1_udp = \<lparr>c_ref = 1, c_path = ''cam1'', c_state = CLIENT_STATE_PLAY,
                c_ip = [192, 168, 0, 10], c_streamProtocol = STREAM_PROTOCOL_UDP,
                c_streamTracks = [0 \<mapsto> \<lparr>rtpPort = 41000, rtcpPort = 41001\<rparr>]\<rparr>"

definition cam1_tcp :: serverClient where
  "cam1_tcp = \<lparr>c_ref = 2, c_path = ''cam1'', c_state = CLIENT_STATE_PLAY,
                c_ip = [192, 168, 0, 11], c_streamProtocol = STREAM_PROTOCOL_TCP,
                c_streamTracks = Map.empty\<rparr>"

definition cam2_tcp :: serverClient where
  "cam2_tcp = \<lparr>c_ref = 3, c_path = ''cam2'', c_state = CLIENT_STATE_PLAY,
                c_ip = [192, 168, 0, 12], c_streamProtocol = STREAM_PROTOCOL_TCP,
                c_streamTracks = Map.empty\<rparr>"

definition cam1_setting_up :: serverClient where
  "cam1_setting_up = \<lparr>c_ref = 4, c_path = ''cam1'', c_state = CLIENT_STATE_PRE_PLAY,
                c_ip = [192, 168, 0, 13], c_streamProtocol = STREAM_PROTOCOL_UDP,
                c_streamTracks = [0 \<mapsto> \<lparr>rtpPort = 42000, rtcpPort = 42001\<rparr>]\<rparr>"

definition empty_program :: program where
  "empty_program =
     \<lparr>p_conf = default_conf,
      protocols = {STREAM_PROTOCOL_UDP, STREAM_PROTOCOL_TCP},
      mutex = \<lparr>writer = False, readers = 0\<rparr>,
      rtpl_chanWrite = \<lparr>room = 64, queued = []\<rparr>,
      rtcpl_chanWrite = \<lparr>room = 64, queued = []\<rparr>,
      clients = [],
      chanWrite = (\<lambda>r. \<lparr>room = 1, queued = []\<rparr>),
      streams = []\<rparr>"

definition four_clients :: program where
  "four_clients = empty_program\<lparr>clients := [cam1_udp, cam1_tcp, cam2_tcp, cam1_setting_up]\<rparr>"

definition packet :: frame where
  "packet = \<lparr>backing = 0, content = [0xAA, 0xBB]\<rparr>"

definition earlier_packet :: InterleavedFrame where
  "earlier_packet = \<lparr>Channel = 0, Content = \<lparr>backing = 7, content = [0x01]\<rparr>\<rparr>"

definition slow_tcp_client :: program where
  "slow_tcp_client = four_clients\<lparr>chanWrite := (\<lambda>r. \<lparr>room = 1, queued = [earlier_packet]\<rparr>)\<rparr>"

definition idle_world :: world where
  "idle_world =
     \<lparr>w_sv =
        \<lparr>p_conf = default_conf\<lparr>StreamTTL := 2 * Second\<rparr>,
         protocols = {STREAM_PROTOCOL_UDP, STREAM_PROTOCOL_TCP},
         mutex = \<lparr>writer = False, readers = 0\<rparr>,
         rtpl_chanWrite = \<lparr>room = 64, queued = []\<rparr>,
         rtcpl_chanWrite = \<lparr>room = 64, queued = []\<rparr>,
         clients = [],
         chanWrite = (\<lambda>r. \<lparr>room = 1, queued = []\<rparr>),
         streams = [],
         streamsClientLastTime = [],
         effects = []\<rparr>,
      clock = 0\<rparr>"

definition three_seconds :: "event list" where
  "three_seconds =
     [Advance 1000000000, Tick, Advance 1000000000, Tick, Advance 1000000000, Tick]"

definition brief_visit :: "event list" where
  "brief_visit = [ClientConnects cam1_tcp, StreamCreated ''cam1'', ClientLeaves 2]"

definition two_streams :: supervised where
  "two_streams =
     \<lparr>p_conf = default_conf,
      protocols = {STREAM_PROTOCOL_UDP, STREAM_PROTOCOL_TCP},
      mutex = \<lparr>writer = False, readers = 0\<rparr>,
      rtpl_chanWrite = \<lparr>room = 64, queued = []\<rparr>,
      rtcpl_chanWrite = \<lparr>room = 64, queued = []\<rparr>,
      clients = [cam1_tcp],
      chanWrite = (\<lambda>r. \<lparr>room = 1, queued = []\<rparr>),
      streams = [(''cam1'', \<lparr>s_stop_closed = False, s_created = 0\<rparr>),
                 (''cam9'', \<lparr>s_stop_closed = False, s_created = 0\<rparr>)],
      streamsClientLastTime = [(''cam9'', 0)],
      effects = []\<rparr>"

definition cam1_listener :: streamUdpListener where
  "cam1_listener = \<lparr>l_state = UDPL_STATE_RUNNING, publisherIp = [10, 0, 0, 1],
                     publisherPort = 5000, l_trackId = 0, l_flow = TRACK_FLOW_RTP,
                     l_path = ''cam1'', l_mutex = False, lastFrameTime = 0\<rparr>"

definition publisher :: UDPAddr where
  "publisher = \<lparr>IP = [10, 0, 0, 1], Port = 5000\<rparr>"

definition stranger :: UDPAddr where
  "stranger = \<lparr>IP = [10, 0, 0, 2], Port = 5000\<rparr>"

definition listening :: "program \<Rightarrow> run_state" where
  "listening p = \<lparr>rs_p = p, rs_l = cam1_listener, allocated = 0, forwards = []\<rparr>"

text \<open>A listener that was started, forwarded one frame and was closed.\<close>

definition closed_while_running :: udpl_threads where
  "closed_while_running =
     \<lparr>t_state = UDPL_STATE_RUNNING, t_nconn_closed = True, t_run = RunFinished,
      t_close = CloseReturnedAfterDone, t_forwarded = 1, t_late = 0\<rparr>"

chapter \<open>Properties\<close>

section \<open>The fan-out delivers to the subscribers\<close>

lemma chan_send_cases:
  "chan_send ch v = (if room ch \<le> length (queued ch) then None else Some (enqueue ch [v]))"
  by (simp add: chan_send_def enqueue_def)

lemma enqueue_enqueue: "enqueue (enqueue ch vs) ws = enqueue ch (vs @ ws)"
  by (simp add: enqueue_def)

lemma enqueue_Nil: "enqueue ch [] = ch"
  by (simp add: enqueue_def)

lemma range_Cons:
  "forwardTrack_range (c # cs) p path i flow fr =
     (if \<not> subscribed path c then forwardTrack_range cs p path i flow fr
      else if unbound c path i then Panicked p
      else if queue_full c p flow then Parked p
      else forwardTrack_range cs (after_client c p path i flow fr) path i flow fr)"
  by (cases flow; cases "c_streamProtocol c")
     (auto simp: subscribed_def unbound_def queue_full_def after_client_def chan_send_cases
        udp_datagram_def split: option.splits)

declare forwardTrack_range.simps(2) [simp del]

lemma fanned_out_Nil: "fanned_out [] p path i flow fr = p"
  by (simp add: fanned_out_def udp_datagrams_def tcp_frames_def enqueue_Nil)

lemma fanned_out_Cons:
  "fanned_out cs (after_client c p path i flow fr) path i flow fr = fanned_out (c # cs) p path i flow fr"
  by (cases flow; cases "c_streamProtocol c")
     (auto simp: fanned_out_def after_client_def udp_datagrams_def tcp_frames_def enqueue_enqueue
        fun_eq_iff trackToInterleavedChannel_def)

lemma range_Returned:
  "forwardTrack_range cs p path i flow fr = Returned p' \<Longrightarrow> p' = fanned_out cs p path i flow fr"
proof (induction cs arbitrary: p)
  case Nil
  then show ?case by (simp add: fanned_out_Nil)
next
  case (Cons c cs)
  then show ?case
    unfolding range_Cons
    by (metis fanned_out_Cons after_client_def fwd_outcome.distinct(1,3))
qed

lemma after_client_clients: "clients (after_client c p path i flow fr) = clients p"
  by (simp add: after_client_def)

lemma after_client_mutex: "mutex (after_client c p path i flow fr) = mutex p"
  by (simp add: after_client_def)

lemma range_Parked:
  "forwardTrack_range cs p path i flow fr = Parked q \<Longrightarrow> clients q = clients p \<and> mutex q = mutex p"
proof (induction cs arbitrary: p)
  case Nil
  then show ?case by simp
next
  case (Cons c cs)
  then show ?case
    unfolding range_Cons
    by (metis after_client_clients after_client_mutex fwd_outcome.distinct(3,5) fwd_outcome.inject(2))
qed

lemma tracks_bound_Cons:
  "tracks_bound path i (c # cs) \<longleftrightarrow> \<not> unbound c path i \<and> tracks_bound path i cs"
  by (auto simp: tracks_bound_def unbound_def)

lemma fits_Cons: "fits ch (v # vs) \<longleftrightarrow> length (queued ch) < room ch \<and> fits (enqueue ch [v]) vs"
  by (auto simp: fits_def enqueue_def)

lemma fits_all_Cons:
  "fits_all (c # cs) p path i flow fr \<longleftrightarrow>
     (subscribed path c \<longrightarrow> \<not> queue_full c p flow) \<and>
     fits_all cs (after_client c p path i flow fr) path i flow fr"
  by (cases flow; cases "c_streamProtocol c"; cases "subscribed path c")
     (auto simp: fits_all_def after_client_def udp_datagrams_def tcp_frames_def queue_full_def
        fits_Cons udp_datagram_def not_le trackToInterleavedChannel_def)

lemma fits_all_Nil: "fits_all [] p path i flow fr"
  by (simp add: fits_all_def fits_def udp_datagrams_def tcp_frames_def)

lemma range_Returned_iff:
  "(\<exists>p'. forwardTrack_range cs p path i flow fr = Returned p') \<longleftrightarrow>
     tracks_bound path i cs \<and> fits_all cs p path i flow fr"
proof (induction cs arbitrary: p)
  case Nil
  show ?case by (simp add: fits_all_Nil tracks_bound_def)
next
  case (Cons c cs)
  show ?case
  proof (cases "subscribed path c")
    case False
    then show ?thesis
      using Cons.IH [of p]
      by (simp add: range_Cons tracks_bound_Cons fits_all_Cons unbound_def after_client_def)
  next
    case True
    then show ?thesis
      using Cons.IH [of "after_client c p path i flow fr"]
      by (simp add: range_Cons tracks_bound_Cons fits_all_Cons)
  qed
qed

lemma range_not_Panicked:
  "tracks_bound path i cs \<Longrightarrow> forwardTrack_range cs p path i flow fr \<noteq> Panicked q"
  by (induction cs arbitrary: p) (simp_all add: range_Cons tracks_bound_Cons)

lemma tcp_frames_empty:
  "r \<notin> c_ref ` set cs \<Longrightarrow> tcp_frames r path i flow fr cs = []"
  by (auto simp: tcp_frames_def filter_empty_conv)

lemma has_room_fits_all:
  "has_room cs p path i flow fr \<longleftrightarrow> fits_all cs p path i flow fr"
proof -
  have "(\<forall>r. fits (chanWrite p r) (tcp_frames r path i flow fr cs)) \<longleftrightarrow>
        (\<forall>c\<in>set cs. fits (chanWrite p (c_ref c)) (tcp_frames (c_ref c) path i flow fr cs))"
  proof (intro iffI allI ballI)
    fix r
    assume h: "\<forall>c\<in>set cs. fits (chanWrite p (c_ref c)) (tcp_frames (c_ref c) path i flow fr cs)"
    show "fits (chanWrite p r) (tcp_frames r path i flow fr cs)"
    proof (cases "r \<in> c_ref ` set cs")
      case True
      then show ?thesis using h by auto
    next
      case False
      then show ?thesis by (simp add: tcp_frames_empty fits_def)
    qed
  qed simp
  then show ?thesis
    by (simp add: has_room_def fits_all_def list_all_iff)
qed

lemma full_not_fits: "vs \<noteq> [] \<Longrightarrow> room ch \<le> length (queued ch) \<Longrightarrow> \<not> fits ch vs"
  by (cases vs) (auto simp: fits_def)

lemma full_queue_not_fits:
  assumes "c \<in> set cs" "subscribed path c" "queue_full c p flow"
  shows "\<not> fits_all cs p path i flow fr"
proof (cases "c_streamProtocol c")
  case STREAM_PROTOCOL_UDP
  then have ne: "udp_datagrams flow path i flow fr cs \<noteq> []"
    using assms(1,2) by (auto simp: udp_datagrams_def filter_empty_conv)
  show ?thesis
  proof (cases flow)
    case TRACK_FLOW_RTP
    then have "\<not> fits (rtpl_chanWrite p) (udp_datagrams TRACK_FLOW_RTP path i flow fr cs)"
      using ne assms(3) STREAM_PROTOCOL_UDP by (intro full_not_fits) (auto simp: queue_full_def)
    then show ?thesis by (simp add: fits_all_def)
  next
    case TRACK_FLOW_RTCP
    then have "\<not> fits (rtcpl_chanWrite p) (udp_datagrams TRACK_FLOW_RTCP path i flow fr cs)"
      using ne assms(3) STREAM_PROTOCOL_UDP by (intro full_not_fits) (auto simp: queue_full_def)
    then show ?thesis by (simp add: fits_all_def)
  qed
next
  case STREAM_PROTOCOL_TCP
  then have "tcp_frames (c_ref c) path i flow fr cs \<noteq> []"
    using assms(1,2) by (auto simp: tcp_frames_def filter_empty_conv)
  then have "\<not> fits (chanWrite p (c_ref c)) (tcp_frames (c_ref c) path i flow fr cs)"
    using assms(3) STREAM_PROTOCOL_TCP by (intro full_not_fits) (auto simp: queue_full_def)
  then show ?thesis by (auto simp: fits_all_def)
qed

lemma fanned_out_bystander:
  assumes "r \<notin> c_ref ` {c \<in> set cs. subscribed path c}"
  shows "chanWrite (fanned_out cs p path i flow fr) r = chanWrite p r"
proof -
  have "tcp_frames r path i flow fr cs = []"
    using assms by (auto simp: tcp_frames_def filter_empty_conv)
  then show ?thesis by (simp add: fanned_out_def enqueue_Nil)
qed

text \<open>
  Claim C1. For every packet handed to \<^verbatim>\<open>forwardTrack(path, trackId, flow, frame)\<close>,
  exactly the clients on that path in the playing state receive it, each on its own
  transport. A call that returns leaves the program as \<open>fanned_out\<close> describes it: the
  RTP (or, for an RTCP packet, the RTCP) endpoint's writer queue has gained one datagram
  for each UDP subscriber, addressed to the client's address and the RTP (or RTCP) port of
  its binding for the track and carrying the frame; the writer queue of each TCP
  subscriber has gained one interleaved frame with the same bytes on channel
  \<open>2 * trackId\<close> (or \<open>2 * trackId + 1\<close>); nothing else has changed. The call does
  return when every UDP subscriber has a binding for the track and the queues have room.
  The writer queue of a client that is no subscriber is as it was.
\<close>
theorem forwardTrack_fans_out:
  "(forwardTrack p path i flow fr = Returned p' \<longrightarrow>
      p' = fanned_out (clients p) p path i flow fr) \<and>
   (tracks_bound path i (clients p) \<and> has_room (clients p) p path i flow fr \<longrightarrow>
      forwardTrack p path i flow fr = Returned (fanned_out (clients p) p path i flow fr)) \<and>
   (r \<notin> c_ref ` {c \<in> set (clients p). subscribed path c} \<longrightarrow>
      chanWrite (fanned_out (clients p) p path i flow fr) r = chanWrite p r)"
proof (intro conjI impI)
  assume "forwardTrack p path i flow fr = Returned p'"
  then show "p' = fanned_out (clients p) p path i flow fr"
    unfolding forwardTrack_def by (rule range_Returned)
next
  assume "tracks_bound path i (clients p) \<and> has_room (clients p) p path i flow fr"
  then obtain q where "forwardTrack_range (clients p) p path i flow fr = Returned q"
    using range_Returned_iff [of "clients p" p path i flow fr] has_room_fits_all by blast
  then show "forwardTrack p path i flow fr = Returned (fanned_out (clients p) p path i flow fr)"
    unfolding forwardTrack_def using range_Returned by blast
next
  assume "r \<notin> c_ref ` {c \<in> set (clients p). subscribed path c}"
  then show "chanWrite (fanned_out (clients p) p path i flow fr) r = chanWrite p r"
    by (rule fanned_out_bystander)
qed

lemma forwardTrack_parks:
  assumes h: "c \<in> set (clients p) \<and> subscribed path c \<and> queue_full c p flow \<and>
    tracks_bound path i (clients p)"
  shows "\<exists>q. forwardTrack p path i flow fr = Parked q \<and> clients q = clients p \<and> mutex q = mutex p"
proof -
  from h have "\<not> fits_all (clients p) p path i flow fr"
    using full_queue_not_fits by blast
  then have nr: "\<And>q. forwardTrack_range (clients p) p path i flow fr \<noteq> Returned q"
    using range_Returned_iff [of "clients p" p path i flow fr] by blast
  have np: "\<And>q. forwardTrack_range (clients p) p path i flow fr \<noteq> Panicked q"
    using h range_not_Panicked by blast
  obtain q where q: "forwardTrack_range (clients p) p path i flow fr = Parked q"
    using nr np by (cases "forwardTrack_range (clients p) p path i flow fr") auto
  then show ?thesis
    unfolding forwardTrack_def using range_Parked by blast
qed

text \<open>
  Four clients: a UDP and a TCP subscriber of \<open>cam1\<close>, a TCP subscriber of \<open>cam2\<close>, and
  a client of \<open>cam1\<close> that is not playing yet. An RTP packet of track 0 reaches the first
  two and nobody else.
\<close>
theorem forwardTrack_fans_out_witness:
  "tracks_bound ''cam1'' 0 (clients four_clients) \<and>
   has_room (clients four_clients) four_clients ''cam1'' 0 TRACK_FLOW_RTP packet \<and>
   forwardTrack four_clients ''cam1'' 0 TRACK_FLOW_RTP packet =
     Returned (fanned_out (clients four_clients) four_clients ''cam1'' 0 TRACK_FLOW_RTP packet) \<and>
   queued (rtpl_chanWrite (fanned_out (clients four_clients) four_clients ''cam1'' 0 TRACK_FLOW_RTP packet)) =
     [\<lparr>addr = \<lparr>IP = [192, 168, 0, 10], Port = 41000\<rparr>, buf = packet\<rparr>] \<and>
   queued (rtcpl_chanWrite (fanned_out (clients four_clients) four_clients ''cam1'' 0 TRACK_FLOW_RTP packet)) = [] \<and>
   queued (chanWrite (fanned_out (clients four_clients) four_clients ''cam1'' 0 TRACK_FLOW_RTP packet) 2) =
     [\<lparr>Channel = 0, Content = packet\<rparr>] \<and>
   queued (chanWrite (fanned_out (clients four_clients) four_clients ''cam1'' 0 TRACK_FLOW_RTP packet) 3) = [] \<and>
   queued (chanWrite (fanned_out (clients four_clients) four_clients ''cam1'' 0 TRACK_FLOW_RTP packet) 4) = [] \<and>
   chanWrite (fanned_out (clients four_clients) four_clients ''cam1'' 0 TRACK_FLOW_RTP packet) 3 =
     chanWrite four_clients 3"
proof -
  have n: "3 \<notin> c_ref ` {c \<in> set (clients four_clients). subscribed ''cam1'' c}"
    by (auto simp: four_clients_def cam1_udp_def cam1_tcp_def cam2_tcp_def
          cam1_setting_up_def subscribed_def)
  have b: "tracks_bound ''cam1'' 0 (clients four_clients)"
    by (simp add: tracks_bound_def four_clients_def cam1_udp_def cam1_tcp_def cam2_tcp_def
          cam1_setting_up_def subscribed_def)
  have r: "has_room (clients four_clients) four_clients ''cam1'' 0 TRACK_FLOW_RTP packet"
    by (simp add: has_room_def fits_def udp_datagrams_def tcp_frames_def four_clients_def
          empty_program_def cam1_udp_def cam1_tcp_def cam2_tcp_def cam1_setting_up_def subscribed_def)
  have q: "queued (rtpl_chanWrite (fanned_out (clients four_clients) four_clients ''cam1'' 0 TRACK_FLOW_RTP packet)) =
     [\<lparr>addr = \<lparr>IP = [192, 168, 0, 10], Port = 41000\<rparr>, buf = packet\<rparr>] \<and>
   queued (rtcpl_chanWrite (fanned_out (clients four_clients) four_clients ''cam1'' 0 TRACK_FLOW_RTP packet)) = [] \<and>
   queued (chanWrite (fanned_out (clients four_clients) four_clients ''cam1'' 0 TRACK_FLOW_RTP packet) 2) =
     [\<lparr>Channel = 0, Content = packet\<rparr>] \<and>
   queued (chanWrite (fanned_out (clients four_clients) four_clients ''cam1'' 0 TRACK_FLOW_RTP packet) 3) = [] \<and>
   queued (chanWrite (fanned_out (clients four_clients) four_clients ''cam1'' 0 TRACK_FLOW_RTP packet) 4) = []"
    by (simp add: fanned_out_def enqueue_def udp_datagrams_def udp_datagram_def tcp_frames_def
          four_clients_def empty_program_def cam1_udp_def cam1_tcp_def cam2_tcp_def
          cam1_setting_up_def subscribed_def)
  show ?thesis
    using forwardTrack_fans_out [of four_clients "''cam1''" 0 TRACK_FLOW_RTP packet
            "fanned_out (clients four_clients) four_clients ''cam1'' 0 TRACK_FLOW_RTP packet" 3]
          b r q n
    by simp
qed

section \<open>The read loop of the listener\<close>

lemma ReadFromUDP_2048:
  "ReadFromUDP (replicate 2048 0) payload = (n, bytes) \<Longrightarrow> take n bytes = take 2048 payload"
  by (auto simp: ReadFromUDP_def Let_def min_def)

lemma run_body_other:
  "\<not> from_publisher (rs_l s) src \<Longrightarrow>
   run_body s now (Received payload src) = Again (s\<lparr>allocated := Suc (allocated s)\<rparr>)"
  by (auto simp: run_body_def from_publisher_def Let_def split: prod.splits)

lemma run_body_publisher:
  assumes "from_publisher (rs_l s) src" "\<not> writer (mutex (rs_p s))"
  shows "run_body s now (Received payload src) =
           after_forward s now \<lparr>backing = allocated s, content = take 2048 payload\<rparr>
             (forwardTrack ((rs_p s)\<lparr>mutex := (mutex (rs_p s))\<lparr>readers := Suc (readers (mutex (rs_p s)))\<rparr>\<rparr>)
                (l_path (rs_l s)) (l_trackId (rs_l s)) (l_flow (rs_l s))
                \<lparr>backing = allocated s, content = take 2048 payload\<rparr>)"
proof -
  obtain n bytes where rd: "ReadFromUDP (replicate 2048 0) payload = (n, bytes)"
    by (cases "ReadFromUDP (replicate 2048 0) payload")
  then have tk: "take n bytes = take 2048 payload" by (rule ReadFromUDP_2048)
  show ?thesis
    using assms rd tk
    by (simp add: run_body_def from_publisher_def Let_def RLock_def after_forward_def
          split: fwd_outcome.splits)
qed

lemma forwards_after_forward:
  "forwards (outcome_state (after_forward s now fr out)) =
     forwards s @ [(l_path (rs_l s), l_trackId (rs_l s), l_flow (rs_l s), fr)]"
  by (cases out) (simp_all add: after_forward_def Let_def)

lemma allocated_after_forward:
  "allocated (outcome_state (after_forward s now fr out)) = Suc (allocated s)"
  by (cases out) (simp_all add: after_forward_def Let_def)

lemma fresh_unused:
  "fresh s \<Longrightarrow> allocated s \<notin> backing ` call_frame ` set (forwards s)"
  by (auto simp: fresh_def list_all_iff)

lemma fresh_Suc:
  "fresh s \<Longrightarrow> allocated s' = Suc (allocated s) \<Longrightarrow>
   forwards s' = forwards s \<or> (\<exists>call. forwards s' = forwards s @ [call] \<and> backing (call_frame call) = allocated s) \<Longrightarrow>
   fresh s'"
  by (auto simp: fresh_def list_all_iff less_Suc_eq)

lemma run_body_datagram:
  assumes "fresh s"
  shows
    "(\<not> from_publisher (rs_l s) src \<longrightarrow>
        run_body s now (Received payload src) = Again (s\<lparr>allocated := Suc (allocated s)\<rparr>)) \<and>
     (from_publisher (rs_l s) src \<and> \<not> writer (mutex (rs_p s)) \<longrightarrow>
        run_body s now (Received payload src) =
          after_forward s now \<lparr>backing = allocated s, content = take 2048 payload\<rparr>
            (forwardTrack ((rs_p s)\<lparr>mutex := (mutex (rs_p s))\<lparr>readers := Suc (readers (mutex (rs_p s)))\<rparr>\<rparr>)
               (l_path (rs_l s)) (l_trackId (rs_l s)) (l_flow (rs_l s))
               \<lparr>backing = allocated s, content = take 2048 payload\<rparr>) \<and>
        forwards (outcome_state (run_body s now (Received payload src))) =
          forwards s @ [(l_path (rs_l s), l_trackId (rs_l s), l_flow (rs_l s),
                         \<lparr>backing = allocated s, content = take 2048 payload\<rparr>)]) \<and>
     allocated s \<notin> backing ` call_frame ` set (forwards s) \<and>
     length (take 2048 payload) \<le> 2048 \<and>
     fresh (outcome_state (run_body s now (Received payload src)))"
proof (intro conjI impI)
  assume "\<not> from_publisher (rs_l s) src"
  then show "run_body s now (Received payload src) = Again (s\<lparr>allocated := Suc (allocated s)\<rparr>)"
    by (rule run_body_other)
next
  assume h: "from_publisher (rs_l s) src \<and> \<not> writer (mutex (rs_p s))"
  then show "run_body s now (Received payload src) =
          after_forward s now \<lparr>backing = allocated s, content = take 2048 payload\<rparr>
            (forwardTrack ((rs_p s)\<lparr>mutex := (mutex (rs_p s))\<lparr>readers := Suc (readers (mutex (rs_p s)))\<rparr>\<rparr>)
               (l_path (rs_l s)) (l_trackId (rs_l s)) (l_flow (rs_l s))
               \<lparr>backing = allocated s, content = take 2048 payload\<rparr>)"
    by (simp add: run_body_publisher)
  from h show "forwards (outcome_state (run_body s now (Received payload src))) =
          forwards s @ [(l_path (rs_l s), l_trackId (rs_l s), l_flow (rs_l s),
                         \<lparr>backing = allocated s, content = take 2048 payload\<rparr>)]"
    by (simp add: run_body_publisher forwards_after_forward)
next
  show "allocated s \<notin> backing ` call_frame ` set (forwards s)"
    using assms by (rule fresh_unused)
next
  show "length (take 2048 payload) \<le> 2048" by simp
next
  show "fresh (outcome_state (run_body s now (Received payload src)))"
  proof (cases "from_publisher (rs_l s) src")
    case False
    then show ?thesis
      using assms by (simp add: run_body_other fresh_def list_all_iff less_Suc_eq)
  next
    case pub: True
    show ?thesis
    proof (cases "writer (mutex (rs_p s))")
      case True
      then have "run_body s now (Received payload src) = AwaitsLock (s\<lparr>allocated := Suc (allocated s)\<rparr>)"
        using pub by (auto simp: run_body_def from_publisher_def Let_def RLock_def split: prod.splits)
      then show ?thesis
        using assms by (simp add: fresh_def list_all_iff less_Suc_eq)
    next
      case False
      show ?thesis
        by (rule fresh_Suc [OF assms])
           (simp_all add: run_body_publisher [OF pub False] forwards_after_forward
              allocated_after_forward call_frame_def)
    qed
  qed
qed

lemma run_body_cases:
  "run_body s now rd = out \<Longrightarrow>
     allocated (outcome_state out) = Suc (allocated s) \<and>
     (forwards (outcome_state out) = forwards s \<or>
      (\<exists>call. forwards (outcome_state out) = forwards s @ [call] \<and>
              backing (call_frame call) = allocated s))"
proof (cases rd)
  case ReadFailed
  then show "run_body s now rd = out \<Longrightarrow> ?thesis"
    by (auto simp: run_body_def Let_def)
next
  case (Received payload src)
  show "run_body s now rd = out \<Longrightarrow> ?thesis"
  proof (cases "from_publisher (rs_l s) src")
    case False
    then show "run_body s now rd = out \<Longrightarrow> ?thesis"
      using Received by (auto simp: run_body_other)
  next
    case pub: True
    show "run_body s now rd = out \<Longrightarrow> ?thesis"
    proof (cases "writer (mutex (rs_p s))")
      case True
      then have "run_body s now (Received payload src) = AwaitsLock (s\<lparr>allocated := Suc (allocated s)\<rparr>)"
        using pub by (auto simp: run_body_def from_publisher_def Let_def RLock_def split: prod.splits)
      then show "run_body s now rd = out \<Longrightarrow> ?thesis"
        using Received by auto
    next
      case False
      show "run_body s now rd = out \<Longrightarrow> ?thesis"
        using Received
        by (auto simp: run_body_publisher [OF pub False] forwards_after_forward
              allocated_after_forward call_frame_def)
    qed
  qed
qed

lemma unshared_step:
  assumes "unshared s"
    and "allocated s' = Suc (allocated s)"
    and "forwards s' = forwards s \<or>
         (\<exists>call. forwards s' = forwards s @ [call] \<and> backing (call_frame call) = allocated s)"
  shows "unshared s'"
proof -
  have f: "fresh s'" using assms unfolding unshared_def by (blast intro: fresh_Suc)
  have "distinct (map (\<lambda>call. backing (call_frame call)) (forwards s'))"
    using assms(1,3) fresh_unused [of s] by (auto simp: unshared_def)
  then show ?thesis using f by (simp add: unshared_def)
qed

lemma run_body_unshared:
  "unshared s \<Longrightarrow> unshared (outcome_state (run_body s now rd))"
  using run_body_cases [OF refl, of s now rd] by (blast intro: unshared_step)

lemma run_unshared:
  "unshared s \<Longrightarrow> unshared (outcome_state (run s evs))"
proof (induction evs arbitrary: s)
  case Nil
  then show ?case by simp
next
  case (Cons ev evs)
  obtain now rd where ev: "ev = (now, rd)" by (cases ev)
  have u: "unshared (outcome_state (run_body s now rd))"
    using Cons.prems by (rule run_body_unshared)
  show ?case
  proof (cases "run_body s now rd")
    case (Again s')
    then show ?thesis using u Cons.IH [of s'] ev by simp
  qed (use u ev in simp_all)
qed

text \<open>
  Claim C5. For every datagram the read loop receives: the buffer of the pass is a newly
  allocated array of 2048 bytes, which no frame forwarded before lives in; a datagram
  whose source address or source port is not the publisher's is dropped, and the pass
  changes nothing but the allocation count; a datagram of the publisher is forwarded
  with exactly the bytes received (the first 2048 at most), unmodified, by one call of
  \<^verbatim>\<open>forwardTrack\<close> under the read lock with the listener's path, track and flow.
  (When a writer holds the lock the pass waits for it first.) After the pass, and after
  any further run of the loop, no two forwarded frames share an array.
\<close>
theorem run_body_forwards_publisher_datagrams:
  assumes "unshared s"
  shows
    "(\<not> from_publisher (rs_l s) src \<longrightarrow>
        run_body s now (Received payload src) = Again (s\<lparr>allocated := Suc (allocated s)\<rparr>)) \<and>
     (from_publisher (rs_l s) src \<and> \<not> writer (mutex (rs_p s)) \<longrightarrow>
        run_body s now (Received payload src) =
          after_forward s now \<lparr>backing = allocated s, content = take 2048 payload\<rparr>
            (forwardTrack ((rs_p s)\<lparr>mutex := (mutex (rs_p s))\<lparr>readers := Suc (readers (mutex (rs_p s)))\<rparr>\<rparr>)
               (l_path (rs_l s)) (l_trackId (rs_l s)) (l_flow (rs_l s))
               \<lparr>backing = allocated s, content = take 2048 payload\<rparr>) \<and>
        forwards (outcome_state (run_body s now (Received payload src))) =
          forwards s @ [(l_path (rs_l s), l_trackId (rs_l s), l_flow (rs_l s),
                         \<lparr>backing = allocated s, content = take 2048 payload\<rparr>)]) \<and>
     allocated s \<notin> backing ` call_frame ` set (forwards s) \<and>
     length (take 2048 payload) \<le> 2048 \<and>
     unshared (outcome_state (run_body s now (Received payload src))) \<and>
     unshared (outcome_state (run s evs))"
proof -
  have f: "fresh s" using assms by (simp add: unshared_def)
  show ?thesis
    using run_body_datagram [OF f, of src now payload]
          run_body_unshared [OF assms, of now "Received payload src"]
          run_unshared [OF assms, of evs]
    by blast
qed

text \<open>A datagram of the publisher is forwarded, the same datagram from a stranger is not.\<close>
theorem run_body_forwards_publisher_datagrams_witness:
  "unshared (listening four_clients) \<and>
   from_publisher (rs_l (listening four_clients)) publisher \<and>
   \<not> writer (mutex (rs_p (listening four_clients))) \<and>
   forwards (outcome_state (run_body (listening four_clients) 5 (Received [0xAA, 0xBB] publisher))) =
     [(''cam1'', 0, TRACK_FLOW_RTP, \<lparr>backing = 0, content = [0xAA, 0xBB]\<rparr>)] \<and>
   \<not> from_publisher (rs_l (listening four_clients)) stranger \<and>
   run_body (listening four_clients) 5 (Received [0xAA, 0xBB] stranger) =
     Again ((listening four_clients)\<lparr>allocated := 1\<rparr>)"
proof -
  have a: "unshared (listening four_clients)"
    by (simp add: unshared_def fresh_def listening_def)
  have b: "from_publisher (rs_l (listening four_clients)) publisher"
    "\<not> from_publisher (rs_l (listening four_clients)) stranger"
    by (simp_all add: from_publisher_def listening_def cam1_listener_def publisher_def stranger_def
          IP_Equal_def)
  have c: "\<not> writer (mutex (rs_p (listening four_clients)))"
    by (simp add: listening_def four_clients_def empty_program_def)
  have d: "rs_l (listening four_clients) = cam1_listener" "allocated (listening four_clients) = 0"
    "forwards (listening four_clients) = []"
    "l_path cam1_listener = ''cam1''" "l_trackId cam1_listener = 0"
    "l_flow cam1_listener = TRACK_FLOW_RTP"
    by (simp_all add: listening_def cam1_listener_def)
  show ?thesis
    using run_body_forwards_publisher_datagrams [OF a, of publisher 5 "[0xAA, 0xBB]" "[]"]
          run_body_forwards_publisher_datagrams [OF a, of stranger 5 "[0xAA, 0xBB]" "[]"]
          a b c d
    by (simp add: forwards_after_forward)
qed

section \<open>A writer queue without room\<close>

text \<open>
  Claim C2, as amended. When the writer queue of a subscriber has no room at forwarding
  time, \<^verbatim>\<open>forwardTrack\<close> neither drops the packet nor returns: it stays parked on
  its send, the client set as it was. A call that does return has sent the packet to
  every subscriber. The pass of the listener's read loop that made the call is parked
  with it and keeps the read lock it took before the call.
\<close>
theorem full_queue_parks_under_read_lock:
  "(c \<in> set (clients p) \<and> subscribed path c \<and> queue_full c p flow \<and>
    tracks_bound path i (clients p) \<longrightarrow>
      (\<exists>q. forwardTrack p path i flow fr = Parked q \<and> clients q = clients p \<and> mutex q = mutex p)) \<and>
   (forwardTrack p path i flow fr = Returned p' \<longrightarrow>
      p' = fanned_out (clients p) p path i flow fr) \<and>
   (from_publisher (rs_l s) src \<and> \<not> writer (mutex (rs_p s)) \<and>
    c \<in> set (clients (rs_p s)) \<and> subscribed (l_path (rs_l s)) c \<and>
    queue_full c (rs_p s) (l_flow (rs_l s)) \<and>
    tracks_bound (l_path (rs_l s)) (l_trackId (rs_l s)) (clients (rs_p s)) \<longrightarrow>
      (\<exists>s'. run_body s now (Received payload src) = AwaitsQueue s' \<and>
            readers (mutex (rs_p s')) = Suc (readers (mutex (rs_p s))) \<and>
            clients (rs_p s') = clients (rs_p s)))"
proof (intro conjI impI)
  assume h: "c \<in> set (clients p) \<and> subscribed path c \<and> queue_full c p flow \<and>
    tracks_bound path i (clients p)"
  then show "\<exists>q. forwardTrack p path i flow fr = Parked q \<and> clients q = clients p \<and> mutex q = mutex p"
    by (rule forwardTrack_parks)
next
  assume "forwardTrack p path i flow fr = Returned p'"
  then show "p' = fanned_out (clients p) p path i flow fr"
    unfolding forwardTrack_def by (rule range_Returned)
next
  assume h: "from_publisher (rs_l s) src \<and> \<not> writer (mutex (rs_p s)) \<and>
    c \<in> set (clients (rs_p s)) \<and> subscribed (l_path (rs_l s)) c \<and>
    queue_full c (rs_p s) (l_flow (rs_l s)) \<and>
    tracks_bound (l_path (rs_l s)) (l_trackId (rs_l s)) (clients (rs_p s))"
  let ?p = "(rs_p s)\<lparr>mutex := (mutex (rs_p s))\<lparr>readers := Suc (readers (mutex (rs_p s)))\<rparr>\<rparr>"
  let ?fr = "\<lparr>backing = allocated s, content = take 2048 payload\<rparr>"
  have "c \<in> set (clients ?p) \<and> subscribed (l_path (rs_l s)) c \<and>
        queue_full c ?p (l_flow (rs_l s)) \<and>
        tracks_bound (l_path (rs_l s)) (l_trackId (rs_l s)) (clients ?p)"
    using h by (simp add: queue_full_def)
  then obtain q where q:
    "forwardTrack ?p (l_path (rs_l s)) (l_trackId (rs_l s)) (l_flow (rs_l s)) ?fr = Parked q"
    "clients q = clients ?p" "mutex q = mutex ?p"
    using forwardTrack_parks [of c ?p "l_path (rs_l s)" "l_flow (rs_l s)" "l_trackId (rs_l s)" ?fr]
    by blast
  have "run_body s now (Received payload src) = after_forward s now ?fr (Parked q)"
    using h q(1) by (simp add: run_body_publisher)
  then show "\<exists>s'. run_body s now (Received payload src) = AwaitsQueue s' \<and>
            readers (mutex (rs_p s')) = Suc (readers (mutex (rs_p s))) \<and>
            clients (rs_p s') = clients (rs_p s)"
    using q(2,3) by (simp add: after_forward_def Let_def)
qed

text \<open>
  Claim C2 fails on the code. The TCP subscriber's queue is full: \<^verbatim>\<open>forwardTrack\<close>
  serves the UDP subscriber before it and then parks on the send to the full queue; it
  does not return, and the read loop waits with one reader registered on the lock.
\<close>
theorem full_queue_blocks_forwardTrack:
  "queue_full cam1_tcp slow_tcp_client TRACK_FLOW_RTP \<and>
   forwardTrack slow_tcp_client ''cam1'' 0 TRACK_FLOW_RTP packet =
     Parked (slow_tcp_client\<lparr>rtpl_chanWrite :=
        \<lparr>room = 64, queued = [\<lparr>addr = \<lparr>IP = [192, 168, 0, 10], Port = 41000\<rparr>, buf = packet\<rparr>]\<rparr>\<rparr>) \<and>
   run_body (listening slow_tcp_client) 5 (Received [0xAA, 0xBB] publisher) =
     AwaitsQueue
       \<lparr>rs_p = slow_tcp_client
          \<lparr>mutex := \<lparr>writer = False, readers = 1\<rparr>,
           rtpl_chanWrite :=
             \<lparr>room = 64, queued = [\<lparr>addr = \<lparr>IP = [192, 168, 0, 10], Port = 41000\<rparr>, buf = packet\<rparr>]\<rparr>\<rparr>,
        rs_l = cam1_listener, allocated = 1,
        forwards = [(''cam1'', 0, TRACK_FLOW_RTP, packet)]\<rparr>"
  by (simp add: queue_full_def forwardTrack_def forwardTrack_range.simps slow_tcp_client_def four_clients_def
        empty_program_def cam1_udp_def cam1_tcp_def cam2_tcp_def cam1_setting_up_def
        chan_send_def earlier_packet_def run_body_def listening_def cam1_listener_def
        publisher_def IP_Equal_def RLock_def ReadFromUDP_def packet_def Let_def)

theorem full_queue_parks_under_read_lock_witness:
  "cam1_tcp \<in> set (clients slow_tcp_client) \<and>
   subscribed ''cam1'' cam1_tcp \<and>
   queue_full cam1_tcp slow_tcp_client TRACK_FLOW_RTP \<and>
   tracks_bound ''cam1'' 0 (clients slow_tcp_client) \<and>
   from_publisher cam1_listener publisher \<and>
   (\<exists>q. forwardTrack slow_tcp_client ''cam1'' 0 TRACK_FLOW_RTP packet = Parked q) \<and>
   (\<exists>s'. run_body (listening slow_tcp_client) 5 (Received [0xAA, 0xBB] publisher) = AwaitsQueue s' \<and>
         readers (mutex (rs_p s')) = 1) \<and>
   forwardTrack four_clients ''cam1'' 0 TRACK_FLOW_RTP packet =
     Returned (fanned_out (clients four_clients) four_clients ''cam1'' 0 TRACK_FLOW_RTP packet)"
proof -
  have "tracks_bound ''cam1'' 0 (clients four_clients)"
    by (simp add: tracks_bound_def four_clients_def cam1_udp_def cam1_tcp_def cam2_tcp_def
          cam1_setting_up_def subscribed_def)
  moreover have "has_room (clients four_clients) four_clients ''cam1'' 0 TRACK_FLOW_RTP packet"
    by (simp add: has_room_def fits_def udp_datagrams_def tcp_frames_def four_clients_def
          empty_program_def cam1_udp_def cam1_tcp_def cam2_tcp_def cam1_setting_up_def subscribed_def)
  ultimately obtain p' where ret: "forwardTrack four_clients ''cam1'' 0 TRACK_FLOW_RTP packet = Returned p'"
    using range_Returned_iff [of "clients four_clients" four_clients "''cam1''" 0 TRACK_FLOW_RTP packet]
      has_room_fits_all unfolding forwardTrack_def by blast
  have a: "cam1_tcp \<in> set (clients slow_tcp_client)" "subscribed ''cam1'' cam1_tcp"
    "queue_full cam1_tcp slow_tcp_client TRACK_FLOW_RTP"
    by (simp_all add: slow_tcp_client_def four_clients_def subscribed_def cam1_tcp_def queue_full_def)
  have b: "tracks_bound ''cam1'' 0 (clients slow_tcp_client)"
    by (simp add: tracks_bound_def slow_tcp_client_def four_clients_def cam1_udp_def cam1_tcp_def
          cam2_tcp_def cam1_setting_up_def subscribed_def)
  have c: "from_publisher cam1_listener publisher"
    by (simp add: from_publisher_def cam1_listener_def publisher_def IP_Equal_def)
  have d: "rs_l (listening slow_tcp_client) = cam1_listener"
    "rs_p (listening slow_tcp_client) = slow_tcp_client"
    "\<not> writer (mutex slow_tcp_client)" "readers (mutex slow_tcp_client) = 0"
    "l_path cam1_listener = ''cam1''" "l_trackId cam1_listener = 0"
    "l_flow cam1_listener = TRACK_FLOW_RTP"
    by (simp_all add: listening_def slow_tcp_client_def four_clients_def empty_program_def
          cam1_listener_def)
  show ?thesis
    using full_queue_parks_under_read_lock
            [of cam1_tcp slow_tcp_client "''cam1''" TRACK_FLOW_RTP 0 packet slow_tcp_client
                "listening slow_tcp_client" publisher 5 "[0xAA, 0xBB]"]
          full_queue_parks_under_read_lock
            [of cam1_tcp four_clients "''cam1''" TRACK_FLOW_RTP 0 packet p'
                "listening slow_tcp_client" publisher 5 "[0xAA, 0xBB]"]
          a b c d ret
    by auto
qed

section \<open>Closing a listener\<close>

lemma udpl_inv_init: "udpl_inv udpl_init"
  by (simp add: udpl_inv_def udpl_init_def)

lemma udpl_inv_step: "udpl_step s s' \<Longrightarrow> udpl_inv s \<Longrightarrow> udpl_inv s'"
  by (induction rule: udpl_step.induct) (auto simp: udpl_inv_def close_returned_def)

lemma udpl_reachable_inv: "udpl_reachable s \<Longrightarrow> udpl_inv s"
  by (induction rule: udpl_reachable.induct) (auto intro: udpl_inv_init udpl_inv_step)

lemma close_cannot_skip_running:
  "udpl_step s s' \<Longrightarrow> t_close s = ClosePastSocket \<Longrightarrow> t_state s = UDPL_STATE_RUNNING \<Longrightarrow>
   \<not> close_returned s'"
  by (induction rule: udpl_step.induct) (auto simp: close_returned_def)

lemma close_waits_for_done:
  "udpl_step s s' \<Longrightarrow> t_close s = CloseReceiving \<Longrightarrow> t_run s \<noteq> RunSendingDone \<Longrightarrow>
   \<not> close_returned s'"
  by (induction rule: udpl_step.induct) (auto simp: close_returned_def)

text \<open>
  Claim C10. In every state that \<^verbatim>\<open>start\<close>, \<^verbatim>\<open>run\<close> and \<^verbatim>\<open>close\<close> can
  reach: when \<^verbatim>\<open>close\<close> has returned after its receive from \<^verbatim>\<open>chanDone\<close>, the
  goroutine of \<^verbatim>\<open>run\<close> has finished; no call of \<^verbatim>\<open>forwardTrack\<close> was ever made
  after \<^verbatim>\<open>close\<close> returned; once \<^verbatim>\<open>close\<close> has seen the running state it cannot
  return before \<^verbatim>\<open>run\<close> is in its deferred send; and for a listener still in the
  starting state \<^verbatim>\<open>close\<close> returns in its next step, without waiting.
\<close>
theorem close_returns_after_run:
  assumes "udpl_reachable s"
  shows
    "(t_close s = CloseReturnedAfterDone \<longrightarrow> t_run s = RunFinished) \<and>
     (t_close s = CloseReturnedAtOnce \<longrightarrow> t_forwarded s = 0 \<and> t_run s \<noteq> RunForwarding) \<and>
     t_late s = 0 \<and>
     (t_close s = ClosePastSocket \<and> t_state s = UDPL_STATE_RUNNING \<longrightarrow>
        (\<forall>s'. udpl_step s s' \<longrightarrow> \<not> close_returned s')) \<and>
     (t_close s = CloseReceiving \<and> t_run s \<noteq> RunSendingDone \<longrightarrow>
        (\<forall>s'. udpl_step s s' \<longrightarrow> \<not> close_returned s')) \<and>
     (t_close s = ClosePastSocket \<and> t_state s = UDPL_STATE_STARTING \<longrightarrow>
        udpl_step s (s\<lparr>t_close := CloseReturnedAtOnce\<rparr>))"
proof -
  have inv: "udpl_inv s" using assms by (rule udpl_reachable_inv)
  show ?thesis
  proof (intro conjI impI allI)
    show "t_late s = 0" using inv by (simp add: udpl_inv_def)
  next
    assume "t_close s = ClosePastSocket \<and> t_state s = UDPL_STATE_STARTING"
    then show "udpl_step s (s\<lparr>t_close := CloseReturnedAtOnce\<rparr>)"
      by (simp add: udpl_step.close_starting)
  qed (use inv close_cannot_skip_running close_waits_for_done in \<open>auto simp: udpl_inv_def\<close>)
qed

lemma closed_while_running_reachable: "udpl_reachable closed_while_running"
proof -
  let ?s1 = "udpl_init\<lparr>t_state := UDPL_STATE_RUNNING\<rparr>"
  let ?s2 = "?s1\<lparr>t_run := RunReading\<rparr>"
  let ?s3 = "?s2\<lparr>t_run := RunForwarding\<rparr>"
  let ?s4 = "?s3\<lparr>t_nconn_closed := True, t_close := ClosePastSocket\<rparr>"
  let ?s5 = "?s4\<lparr>t_run := RunReading, t_forwarded := Suc (t_forwarded ?s4),
                  t_late := (if close_returned ?s4 then Suc (t_late ?s4) else t_late ?s4)\<rparr>"
  let ?s6 = "?s5\<lparr>t_close := CloseReceiving\<rparr>"
  let ?s7 = "?s6\<lparr>t_run := RunSendingDone\<rparr>"
  let ?s8 = "?s7\<lparr>t_run := RunFinished, t_close := CloseReturnedAfterDone\<rparr>"
  have r0: "udpl_reachable udpl_init" by (rule udpl_reachable.init)
  have r1: "udpl_reachable ?s1"
    by (rule udpl_reachable.step [OF r0]) (rule udpl_step.start_state; simp add: udpl_init_def)
  have r2: "udpl_reachable ?s2"
    by (rule udpl_reachable.step [OF r1]) (rule udpl_step.start_go; simp add: udpl_init_def)
  have r3: "udpl_reachable ?s3"
    by (rule udpl_reachable.step [OF r2]) (rule udpl_step.read_publisher; simp add: udpl_init_def)
  have r4: "udpl_reachable ?s4"
    by (rule udpl_reachable.step [OF r3]) (rule udpl_step.close_socket; simp add: udpl_init_def)
  have r5: "udpl_reachable ?s5"
    by (rule udpl_reachable.step [OF r4]) (rule udpl_step.forward; simp add: udpl_init_def)
  have r6: "udpl_reachable ?s6"
    by (rule udpl_reachable.step [OF r5]) (rule udpl_step.close_running; simp add: udpl_init_def)
  have r7: "udpl_reachable ?s7"
    by (rule udpl_reachable.step [OF r6]) (rule udpl_step.read_error; simp add: udpl_init_def)
  have r8: "udpl_reachable ?s8"
    by (rule udpl_reachable.step [OF r7]) (rule udpl_step.done_handover; simp add: udpl_init_def)
  have "?s8 = closed_while_running"
    by (simp add: closed_while_running_def udpl_init_def close_returned_def)
  then show ?thesis using r8 by simp
qed

theorem close_returns_after_run_witness:
  "udpl_reachable closed_while_running \<and>
   t_close closed_while_running = CloseReturnedAfterDone \<and>
   t_run closed_while_running = RunFinished \<and>
   t_forwarded closed_while_running = 1 \<and>
   t_late closed_while_running = 0"
  using close_returns_after_run [OF closed_while_running_reachable] closed_while_running_reachable
  by (simp add: closed_while_running_def)

section \<open>The supervisor\<close>

lemma stamp_range_distinct:
  "distinct (map fst lt) \<Longrightarrow> distinct (map fst (stamp_range now cs lt))"
  by (induction cs arbitrary: lt) (simp_all add: distinct_update)

lemma stamp_range_client:
  "c \<in> set cs \<Longrightarrow> map_of (stamp_range now cs lt) (c_path c) = Some now"
proof (induction cs arbitrary: lt)
  case Nil
  then show ?case by simp
next
  case (Cons a cs)
  have keep: "\<And>lt k. map_of lt k = Some now \<Longrightarrow> map_of (stamp_range now cs lt) k = Some now"
  proof -
    fix lt k show "map_of lt k = Some now \<Longrightarrow> map_of (stamp_range now cs lt) k = Some now"
      by (induction cs arbitrary: lt) (simp_all add: update_conv')
  qed
  show ?case
  proof (cases "c = a")
    case True
    then show ?thesis by (simp add: keep update_conv')
  next
    case False
    then show ?thesis using Cons by simp
  qed
qed

lemma stops_open_delete: "stops_open strs \<Longrightarrow> stops_open (AList.delete k strs)"
  by (auto simp: stops_open_def list_all_iff AList.delete_eq)

lemma stops_open_lookup: "stops_open strs \<Longrightarrow> map_of strs k = Some s \<Longrightarrow> \<not> s_stop_closed s"
  by (auto simp: stops_open_def list_all_iff dest!: map_of_SomeD)

lemma expiring_other:
  assumes "k \<notin> fst ` set es"
  shows "expiring now ttl (AList.delete k strs) es = expiring now ttl strs es"
proof -
  have ne: "\<And>a b. (a, b) \<in> set es \<Longrightarrow> a \<noteq> k"
    using assms by force
  have "filter (\<lambda>(path, lastTime). ttl \<le> time_Sub now lastTime \<and> map_of (AList.delete k strs) path \<noteq> None) es
      = filter (\<lambda>(path, lastTime). ttl \<le> time_Sub now lastTime \<and> map_of strs path \<noteq> None) es"
    by (rule filter_cong) (auto simp: delete_conv' dest: ne)
  then show ?thesis by (simp add: expiring_def)
qed

lemma expire_range_char:
  assumes "distinct (map fst es)" "stops_open (streams sv)"
  shows "\<exists>sv'. expire_range now es sv = Some sv' \<and>
           p_conf sv' = p_conf sv \<and> mutex sv' = mutex sv \<and> clients sv' = clients sv \<and>
           map_of (streams sv') =
             map_of (streams sv) |` (- set (expiring now (sint (StreamTTL (p_conf sv))) (streams sv) es)) \<and>
           map_of (streamsClientLastTime sv') =
             map_of (streamsClientLastTime sv) |` (- set (expiring now (sint (StreamTTL (p_conf sv))) (streams sv) es)) \<and>
           effects sv' = effects sv @
             concat (map retirement (expiring now (sint (StreamTTL (p_conf sv))) (streams sv) es))"
  using assms
proof (induction es arbitrary: sv)
  case Nil
  then show ?case by (simp add: expiring_def)
next
  case (Cons e es)
  obtain path lastTime where e: "e = (path, lastTime)" by (cases e)
  let ?ttl = "sint (StreamTTL (p_conf sv))"
  have d: "distinct (map fst es)" and notin: "path \<notin> fst ` set es"
    using Cons.prems(1) e by auto
  show ?case
  proof (cases "?ttl \<le> time_Sub now lastTime \<and> map_of (streams sv) path \<noteq> None")
    case False
    then have 1: "expire_range now (e # es) sv = expire_range now es sv"
      using e by (auto split: option.splits)
    have 2: "expiring now ?ttl (streams sv) (e # es) = expiring now ?ttl (streams sv) es"
      using False e by (auto simp: expiring_def)
    show ?thesis unfolding 1 2 using Cons.IH [OF d Cons.prems(2)] .
  next
    case True
    then obtain s where s: "map_of (streams sv) path = Some s" by auto
    then have open_s: "\<not> s_stop_closed s" using Cons.prems(2) stops_open_lookup by blast
    let ?sv1 = "sv\<lparr>effects := effects sv @
                          [Log path, CloseStop path, DeleteStream path, DeleteLastTime path],
                        streams := AList.delete path (streams sv),
                        streamsClientLastTime := AList.delete path (streamsClientLastTime sv)\<rparr>"
    have 1: "expire_range now (e # es) sv = expire_range now es ?sv1"
      using True e s open_s by simp
    have 2: "expiring now ?ttl (streams sv) (e # es) = path # expiring now ?ttl (streams sv) es"
      using True e by (auto simp: expiring_def)
    have 3: "expiring now ?ttl (streams ?sv1) es = expiring now ?ttl (streams sv) es"
      using notin by (simp add: expiring_other)
    have o: "stops_open (streams ?sv1)"
      using Cons.prems(2) by (simp add: stops_open_delete)
    have pc: "p_conf ?sv1 = p_conf sv" "mutex ?sv1 = mutex sv" "clients ?sv1 = clients sv"
      by simp_all
    from Cons.IH [OF d o] obtain sv' where sv':
      "expire_range now es ?sv1 = Some sv'"
      "p_conf sv' = p_conf ?sv1" "mutex sv' = mutex ?sv1" "clients sv' = clients ?sv1"
      "map_of (streams sv') =
         map_of (streams ?sv1) |` (- set (expiring now (sint (StreamTTL (p_conf ?sv1))) (streams ?sv1) es))"
      "map_of (streamsClientLastTime sv') =
         map_of (streamsClientLastTime ?sv1) |`
           (- set (expiring now (sint (StreamTTL (p_conf ?sv1))) (streams ?sv1) es))"
      "effects sv' = effects ?sv1 @
         concat (map retirement (expiring now (sint (StreamTTL (p_conf ?sv1))) (streams ?sv1) es))"
      by blast
    have 4: "expiring now (sint (StreamTTL (p_conf ?sv1))) (streams ?sv1) es
             = expiring now ?ttl (streams sv) es"
      using 3 by simp
    have a: "map_of (streams sv') = map_of (streams sv) |` (- set (path # expiring now ?ttl (streams sv) es))"
      using sv'(5) unfolding 4 by (auto simp: fun_eq_iff restrict_map_def delete_conv')
    have b: "map_of (streamsClientLastTime sv') =
             map_of (streamsClientLastTime sv) |` (- set (path # expiring now ?ttl (streams sv) es))"
      using sv'(6) unfolding 4 by (auto simp: fun_eq_iff restrict_map_def delete_conv')
    have c: "effects sv' = effects sv @ concat (map retirement (path # expiring now ?ttl (streams sv) es))"
      using sv'(7) unfolding 4 by (simp add: retirement_def)
    show ?thesis unfolding 1 2 using sv'(1-4) pc a b c by auto
  qed
qed

lemma Lock_unlocked: "unlocked m \<Longrightarrow> Lock m = Some (m\<lparr>writer := True\<rparr>)"
  by (simp add: Lock_def unlocked_def)

text \<open>
  Claim C4. A tick that finds the lock free runs to its end under the write lock and
  releases it. It first sets \<^verbatim>\<open>lastSeen[client.path]\<close> to the current instant for
  every connected client; then, for every entry whose stamp is at least the time to live
  old and whose path has a stream, in the order of the visit, it closes the stream's stop
  channel, then deletes the stream from the map, then drops the last-seen entry. Every
  other stream and every other entry stays. (The streams in the map have their stop
  channels open, and a Go map has no key twice.)
\<close>
theorem tick_stamps_then_retires:
  assumes "unlocked (mutex sv)"
    and "stops_open (streams sv)"
    and "distinct (map fst (streamsClientLastTime sv))"
  shows "\<exists>sv'. tick now sv = Ticked sv' \<and>
           mutex sv' = mutex sv \<and> clients sv' = clients sv \<and>
           (\<forall>c\<in>set (clients sv). map_of (stamped now sv) (c_path c) = Some now) \<and>
           map_of (streams sv') = map_of (streams sv) |` (- set (retired now sv)) \<and>
           map_of (streamsClientLastTime sv') = map_of (stamped now sv) |` (- set (retired now sv)) \<and>
           effects sv' = effects sv @ concat (map retirement (retired now sv))"
proof -
  let ?sv1 = "sv\<lparr>mutex := (mutex sv)\<lparr>writer := True\<rparr>, streamsClientLastTime := stamped now sv\<rparr>"
  have d: "distinct (map fst (stamped now sv))"
    using assms(3) by (simp add: stamped_def stamp_range_distinct)
  have o: "stops_open (streams ?sv1)" using assms(2) by simp
  from expire_range_char [of "stamped now sv" ?sv1 now, OF d o] obtain sv2 where sv2:
    "expire_range now (stamped now sv) ?sv1 = Some sv2"
    "mutex sv2 = (mutex sv)\<lparr>writer := True\<rparr>" "clients sv2 = clients sv"
    "map_of (streams sv2) = map_of (streams sv) |` (- set (retired now sv))"
    "map_of (streamsClientLastTime sv2) = map_of (stamped now sv) |` (- set (retired now sv))"
    "effects sv2 = effects sv @ concat (map retirement (retired now sv))"
    by (auto simp: retired_def)
  have t: "tick now sv = Ticked (sv2\<lparr>mutex := Unlock (mutex sv2)\<rparr>)"
    using sv2(1) assms(1) by (simp add: tick_def Lock_unlocked stamped_def Let_def)
  have m: "Unlock (mutex sv2) = mutex sv"
    using sv2(2) assms(1) by (simp add: Unlock_def unlocked_def)
  have st: "\<forall>c\<in>set (clients sv). map_of (stamped now sv) (c_path c) = Some now"
    by (simp add: stamped_def stamp_range_client)
  show ?thesis
    using t m st sv2(3-6) by simp
qed

text \<open>
  At ten seconds, with the default time to live of ten seconds: \<open>cam1\<close> has a client and
  is stamped, \<open>cam9\<close> was last seen at instant 0 and is retired.
\<close>
theorem tick_stamps_then_retires_witness:
  "unlocked (mutex two_streams) \<and> stops_open (streams two_streams) \<and>
   distinct (map fst (streamsClientLastTime two_streams)) \<and>
   stamped 10000000000 two_streams = [(''cam9'', 0), (''cam1'', 10000000000)] \<and>
   retired 10000000000 two_streams = [''cam9''] \<and>
   (\<exists>sv'. tick 10000000000 two_streams = Ticked sv' \<and>
          effects sv' = [Log ''cam9'', CloseStop ''cam9'', DeleteStream ''cam9'', DeleteLastTime ''cam9''] \<and>
          map_of (streams sv') ''cam9'' = None \<and>
          map_of (streams sv') ''cam1'' = Some \<lparr>s_stop_closed = False, s_created = 0\<rparr> \<and>
          map_of (streamsClientLastTime sv') ''cam9'' = None \<and>
          map_of (streamsClientLastTime sv') ''cam1'' = Some 10000000000)"
proof -
  have a: "unlocked (mutex two_streams)" "stops_open (streams two_streams)"
    "distinct (map fst (streamsClientLastTime two_streams))"
    by (simp_all add: two_streams_def unlocked_def stops_open_def)
  have s: "stamped 10000000000 two_streams = [(''cam9'', 0), (''cam1'', 10000000000)]"
    by (simp add: stamped_def two_streams_def cam1_tcp_def)
  have r: "retired 10000000000 two_streams = [''cam9'']"
    unfolding retired_def s
    by (simp add: expiring_def two_streams_def default_conf_def Second_def time_Sub_def)
  have m: "map_of (streams two_streams) ''cam1'' = Some \<lparr>s_stop_closed = False, s_created = 0\<rparr>"
    "effects two_streams = []"
    by (simp_all add: two_streams_def)
  show ?thesis
    using tick_stamps_then_retires [OF a, of 10000000000] a s r m
    by (auto simp: retirement_def restrict_map_def)
qed

lemma expire_range_keeps:
  "expire_range now es sv = Some sv' \<Longrightarrow>
     p_conf sv' = p_conf sv \<and>
     (\<forall>path. map_of (streams sv') path \<noteq> None \<longrightarrow> map_of (streams sv') path = map_of (streams sv) path) \<and>
     (\<forall>path. path \<notin> fst ` set es \<longrightarrow> map_of (streams sv') path = map_of (streams sv) path) \<and>
     (\<forall>path t. (path, t) \<in> set es \<and> map_of (streams sv') path \<noteq> None \<longrightarrow>
        time_Sub now t < sint (StreamTTL (p_conf sv)))"
proof (induction es arbitrary: sv)
  case Nil
  then show ?case by simp
next
  case (Cons e es)
  obtain path lastTime where e: "e = (path, lastTime)" by (cases e)
  let ?ttl = "sint (StreamTTL (p_conf sv))"
  show ?case
  proof (cases "?ttl \<le> time_Sub now lastTime")
    case False
    then have "expire_range now es sv = Some sv'"
      using Cons.prems e by simp
    from Cons.IH [OF this] have ih:
      "p_conf sv' = p_conf sv"
      "\<And>k. map_of (streams sv') k \<noteq> None \<Longrightarrow> map_of (streams sv') k = map_of (streams sv) k"
      "\<And>k. k \<notin> fst ` set es \<Longrightarrow> map_of (streams sv') k = map_of (streams sv) k"
      "\<And>k t. (k, t) \<in> set es \<Longrightarrow> map_of (streams sv') k \<noteq> None \<Longrightarrow> time_Sub now t < ?ttl"
      by auto
    show ?thesis
    proof (intro conjI allI impI)
      fix k t assume "(k, t) \<in> set (e # es) \<and> map_of (streams sv') k \<noteq> None"
      then show "time_Sub now t < ?ttl"
        using ih(4) [of k t] False e by auto
    qed (use ih e in auto)
  next
    case exp: True
    show ?thesis
    proof (cases "map_of (streams sv) path")
      case None
      then have "expire_range now es sv = Some sv'"
        using Cons.prems e exp by simp
      from Cons.IH [OF this] have ih:
        "p_conf sv' = p_conf sv"
        "\<And>k. map_of (streams sv') k \<noteq> None \<Longrightarrow> map_of (streams sv') k = map_of (streams sv) k"
        "\<And>k. k \<notin> fst ` set es \<Longrightarrow> map_of (streams sv') k = map_of (streams sv) k"
        "\<And>k t. (k, t) \<in> set es \<Longrightarrow> map_of (streams sv') k \<noteq> None \<Longrightarrow> time_Sub now t < ?ttl"
        by auto
      show ?thesis
      proof (intro conjI allI impI)
        fix k t assume "(k, t) \<in> set (e # es) \<and> map_of (streams sv') k \<noteq> None"
        then show "time_Sub now t < ?ttl"
          using ih(4) [of k t] ih(2) [of path] None e by auto
      qed (use ih e in auto)
    next
      case (Some s)
      let ?sv1 = "sv\<lparr>effects := effects sv @
                          [Log path, CloseStop path, DeleteStream path, DeleteLastTime path],
                        streams := AList.delete path (streams sv),
                        streamsClientLastTime := AList.delete path (streamsClientLastTime sv)\<rparr>"
      have "expire_range now es ?sv1 = Some sv'"
        using Cons.prems e exp Some by (simp split: if_splits)
      from Cons.IH [OF this] have ih:
        "p_conf sv' = p_conf sv"
        "\<And>k. map_of (streams sv') k \<noteq> None \<Longrightarrow>
            map_of (streams sv') k = map_of (AList.delete path (streams sv)) k"
        "\<And>k. k \<notin> fst ` set es \<Longrightarrow>
            map_of (streams sv') k = map_of (AList.delete path (streams sv)) k"
        "\<And>k t. (k, t) \<in> set es \<Longrightarrow> map_of (streams sv') k \<noteq> None \<Longrightarrow> time_Sub now t < ?ttl"
        by auto
      have gone: "map_of (streams sv') path = None"
        using ih(2) [of path] by (cases "map_of (streams sv') path") (auto simp: delete_conv')
      show ?thesis
      proof (intro conjI allI impI)
        show "p_conf sv' = p_conf sv" by (rule ih(1))
      next
        fix k assume "map_of (streams sv') k \<noteq> None"
        then show "map_of (streams sv') k = map_of (streams sv) k"
          using ih(2) [of k] by (cases "k = path") (auto simp: delete_conv')
      next
        fix k assume "k \<notin> fst ` set (e # es)"
        then have "k \<notin> fst ` set es" "k \<noteq> path" using e by auto
        then show "map_of (streams sv') k = map_of (streams sv) k"
          using ih(3) [of k] by (simp add: delete_conv')
      next
        fix k t assume "(k, t) \<in> set (e # es) \<and> map_of (streams sv') k \<noteq> None"
        then show "time_Sub now t < ?ttl"
          using ih(4) [of k t] gone e by auto
      qed
    qed
  qed
qed

text \<open>
  Claim C3, as amended. Right after a tick of the supervisor at the instant \<open>now\<close>, every
  stream still in the map whose path has a last-seen stamp (as the tick stamped it)
  satisfies \<open>now - lastSeen < streamTTL\<close>, the difference as \<^verbatim>\<open>time.Time.Sub\<close>
  computes it; and a stream whose path has no last-seen stamp is left in the map by the
  tick, however long ago it was created.
\<close>
theorem tick_leaves_fresh_or_unseen:
  assumes "tick now sv = Ticked sv'"
  shows "(\<forall>path t. (path, t) \<in> set (stamped now sv) \<and> map_of (streams sv') path \<noteq> None \<longrightarrow>
            time_Sub now t < sint (StreamTTL (p_conf sv))) \<and>
         (\<forall>path. path \<notin> fst ` set (stamped now sv) \<longrightarrow>
            map_of (streams sv') path = map_of (streams sv) path)"
proof -
  from assms obtain m sv2 where
    m: "Lock (mutex sv) = Some m" and
    sv2: "expire_range now (stamped now sv) (sv\<lparr>mutex := m, streamsClientLastTime := stamped now sv\<rparr>) = Some sv2" and
    sv': "sv' = sv2\<lparr>mutex := Unlock (mutex sv2)\<rparr>"
    by (auto simp: tick_def stamped_def Let_def split: option.splits)
  from expire_range_keeps [OF sv2] show ?thesis
    using sv' by simp
qed

theorem tick_leaves_fresh_or_unseen_witness:
  "tick 3000000000 (w_sv (run_events idle_world brief_visit))
     = Ticked (w_sv (run_events idle_world brief_visit)) \<and>
   map_of (streams (w_sv (run_events idle_world brief_visit))) ''cam1''
     = Some \<lparr>s_stop_closed = False, s_created = 0\<rparr>"
  using tick_leaves_fresh_or_unseen
    [of 3000000000 "w_sv (run_events idle_world brief_visit)" "w_sv (run_events idle_world brief_visit)"]
  by (simp add: run_events_def brief_visit_def idle_world_def cam1_tcp_def
       tick_def Lock_def Unlock_def)

text \<open>
  Claim C3 fails on the code. A client connects, its stream is created, and the client
  leaves before the next tick: the path is never stamped, so with a time to live of two
  seconds the stream is still in the map after three ticks, three seconds after its
  creation, with its stop not signalled.
\<close>
theorem idle_stream_outlives_ttl:
  "\<not> ttl_invariant (run_events idle_world (brief_visit @ three_seconds))"
  by (simp add: run_events_def brief_visit_def three_seconds_def idle_world_def cam1_tcp_def
       after_tick_def tick_def Lock_def Unlock_def
      ttl_invariant_def default_conf_def Second_def)

section \<open>Bootstrap\<close>

lemma sint_Second: "sint Second = 1000000000"
  by (simp add: Second_def)

lemma sless_Second: "(x <s Second) \<longleftrightarrow> sint (x :: int64) < 1000000000"
  by (simp add: word_sless_alt sint_Second)

lemma smod_2_cases: "(k :: int) smod 2 = 0 \<or> k smod 2 = 1 \<or> k smod 2 = -1"
  by (auto simp: signed_modulo_int_def sgn_if)

lemma smod_2_zero: "(k :: int) smod 2 = 0 \<longleftrightarrow> even k"
  by (auto simp: signed_modulo_int_def sgn_if)

lemma go_rem_2: "go_rem x 2 \<noteq> 0 \<longleftrightarrow> odd (sint x)"
proof -
  have s2: "sint (2 :: int64) = 2" by simp
  consider "sint x smod 2 = 0" | "sint x smod 2 = 1" | "sint x smod 2 = -1"
    using smod_2_cases by blast
  then show ?thesis
  proof cases
    case 1
    then show ?thesis using smod_2_zero [of "sint x"] by (simp add: go_rem_def s2)
  next
    case 2
    then show ?thesis using smod_2_zero [of "sint x"] by (simp add: go_rem_def s2)
  next
    case 3
    then show ?thesis using smod_2_zero [of "sint x"] by (simp add: go_rem_def s2)
  qed
qed

lemma sint_succ_even:
  assumes "even (sint (x :: int64))"
  shows "sint (x + 1) = sint x + 1"
proof -
  have "sint x < 2 ^ 63" using sint_lt [of x] by simp
  moreover have "sint x \<noteq> 2 ^ 63 - 1" using assms by auto
  ultimately have up: "sint x + 1 < 2 ^ 63" by simp
  have lo: "- (2 ^ 63) \<le> sint x + 1" using sint_ge [of x] by simp
  have "sint (x + 1) = signed_take_bit 63 (sint x + 1)"
    by (simp add: sint_word_add)
  also have "\<dots> = sint x + 1"
    using up lo by (simp add: signed_take_bit_int_eq_self)
  finally show ?thesis .
qed

lemma rtcp_is_next:
  assumes "even (sint (x :: int64))"
  shows "y \<noteq> x + 1 \<longleftrightarrow> sint y \<noteq> sint x + 1"
proof -
  have "y = x + 1 \<longleftrightarrow> sint y = sint (x + 1)" by (rule word_eq_iff_signed)
  then show ?thesis using sint_succ_even [OF assms] by simp
qed

lemma protocols_range_ok:
  "list_all (\<lambda>t. t = ''udp'' \<or> t = ''tcp'') ps \<Longrightarrow>
   protocols_range ps acc = Inr (acc \<union> protocol_set ps)"
  by (induction ps arbitrary: acc) (auto simp: protocol_set_def)

lemma protocols_range_bad:
  "list_ex (\<lambda>t. t \<noteq> ''udp'' \<and> t \<noteq> ''tcp'') ps \<Longrightarrow> \<exists>t. protocols_range ps acc = Inl (UnsupportedProtocol t)"
  by (induction ps arbitrary: acc) auto

lemma list_ex_not_all: "list_ex (\<lambda>t. t \<noteq> ''udp'' \<and> t \<noteq> ''tcp'') ps \<longleftrightarrow> \<not> list_all (\<lambda>t. t = ''udp'' \<or> t = ''tcp'') ps"
  by (induction ps) auto

lemma newProgram_checked_fails:
  assumes "binds_succeed os c"
  shows "(\<exists>e. newProgram_checked os c = Inl e) \<longleftrightarrow> conf_violation c"
proof (cases "list_ex (\<lambda>t. t \<noteq> ''udp'' \<and> t \<noteq> ''tcp'') (Protocols c)")
  case True
  then obtain t where "protocols_range (Protocols c) {} = Inl (UnsupportedProtocol t)"
    using protocols_range_bad by blast
  then have "\<exists>e. newProgram_checked os c = Inl e"
    by (simp add: newProgram_checked_def)
  then show ?thesis using True by (simp add: conf_violation_def)
next
  case False
  then have pr: "protocols_range (Protocols c) {} = Inr (protocol_set (Protocols c))"
    using protocols_range_ok [of "Protocols c" "{}"] by (simp add: list_ex_not_all)
  show ?thesis
  proof (cases "odd (sint (RtpPort c))")
    case True
    then show ?thesis
      by (simp add: newProgram_checked_def conf_violation_def go_rem_2)
  next
    case ev: False
    show ?thesis
      using assms False pr ev rtcp_is_next [of "RtpPort c" "RtcpPort c"]
      by (simp add: newProgram_checked_def conf_violation_def go_rem_2 sless_Second
            binds_succeed_def newServerUdpListener_def newServerTcpListener_def)
  qed
qed

lemma newProgram_checked_conf:
  "newProgram_checked os c = Inr p \<Longrightarrow> p_conf p = c \<and> clients p = [] \<and> streams p = []"
  by (auto simp: newProgram_checked_def split: if_splits sum.splits)

text \<open>
  Claim C8. When the flags parse and all three sockets can be bound, \<^verbatim>\<open>newProgram\<close>
  returns an error if and only if the configuration violates a constraint: a port is 0,
  the RTP port is odd, the RTCP port is not the RTP port plus one, a timeout is below one
  second, a protocol token is neither \<open>udp\<close> nor \<open>tcp\<close>, or the protocol set is empty.
  On an error the process exits with status 1 and there is no program; otherwise the
  program is created with the configuration and with no client and no stream.
\<close>
theorem newProgram_rejects_violations:
  assumes "kingpin_Parse K args env = Some f"
    and "binds_succeed os (newProgram_conf f)"
  shows "((\<exists>e. newProgram K os args env = Failed e) \<longleftrightarrow> conf_violation (newProgram_conf f)) \<and>
         (conf_violation (newProgram_conf f) \<longrightarrow> main K os args env = Exit 1) \<and>
         (\<not> conf_violation (newProgram_conf f) \<longrightarrow>
            (\<exists>p. newProgram K os args env = Created p \<and> main K os args env = Serving p \<and>
                 p_conf p = newProgram_conf f \<and> clients p = [] \<and> streams p = []))"
proof -
  have iff: "(\<exists>e. newProgram_checked os (newProgram_conf f) = Inl e) \<longleftrightarrow> conf_violation (newProgram_conf f)"
    using assms(2) by (rule newProgram_checked_fails)
  show ?thesis
  proof (cases "newProgram_checked os (newProgram_conf f)")
    case (Inl e)
    then show ?thesis using iff assms(1) by (simp add: newProgram_def main_def)
  next
    case (Inr p)
    then show ?thesis
      using iff assms(1) newProgram_checked_conf [OF Inr] by (simp add: newProgram_def main_def)
  qed
qed

lemma parse_defaults:
  "kingpin_Parse plain_flags Map.empty Map.empty =
     Some \<lparr>protocolsStr = ''tcp,udp'', f_rtspPort = 8554, f_rtpPort = 8050, f_rtcpPort = 8051,
           f_streamReadyTimeout = 10000000000, f_streamTTL = 10000000000\<rparr>"
  by (simp add: kingpin_Parse_def plain_flags_def flag_value_def plain_int_def plain_duration_def digit_def Second_def)

lemma parse_odd:
  "kingpin_Parse plain_flags [''rtp-port'' \<mapsto> ''8051''] Map.empty =
     Some \<lparr>protocolsStr = ''tcp,udp'', f_rtspPort = 8554, f_rtpPort = 8051, f_rtcpPort = 8051,
           f_streamReadyTimeout = 10000000000, f_streamTTL = 10000000000\<rparr>"
  by (simp add: kingpin_Parse_def plain_flags_def flag_value_def plain_int_def plain_duration_def digit_def Second_def)

theorem newProgram_rejects_violations_witness:
  "kingpin_Parse plain_flags Map.empty Map.empty =
     Some \<lparr>protocolsStr = ''tcp,udp'', f_rtspPort = 8554, f_rtpPort = 8050, f_rtcpPort = 8051,
           f_streamReadyTimeout = 10000000000, f_streamTTL = 10000000000\<rparr> \<and>
   binds_succeed free_ports (newProgram_conf \<lparr>protocolsStr = ''tcp,udp'', f_rtspPort = 8554, f_rtpPort = 8050, f_rtcpPort = 8051,
           f_streamReadyTimeout = 10000000000, f_streamTTL = 10000000000\<rparr>) \<and>
   (\<exists>p. main plain_flags free_ports Map.empty Map.empty = Serving p) \<and>
   main plain_flags free_ports [''rtp-port'' \<mapsto> ''8051''] Map.empty = Exit 1"
proof -
  let ?f = "\<lparr>protocolsStr = ''tcp,udp'', f_rtspPort = 8554, f_rtpPort = 8050, f_rtcpPort = 8051,
           f_streamReadyTimeout = 10000000000, f_streamTTL = 10000000000\<rparr>"
  let ?g = "\<lparr>protocolsStr = ''tcp,udp'', f_rtspPort = 8554, f_rtpPort = 8051, f_rtcpPort = 8051,
           f_streamReadyTimeout = 10000000000, f_streamTTL = 10000000000\<rparr>"
  have b: "binds_succeed free_ports (newProgram_conf ?f)" "binds_succeed free_ports (newProgram_conf ?g)"
    by (simp_all add: binds_succeed_def free_ports_def)
  have ok: "\<not> conf_violation (newProgram_conf ?f)"
    by (simp add: conf_violation_def newProgram_conf_def protocol_set_def)
  have bad: "conf_violation (newProgram_conf ?g)"
    by (simp add: conf_violation_def newProgram_conf_def)
  show ?thesis
    using newProgram_rejects_violations [OF parse_defaults b(1)]
          newProgram_rejects_violations [OF parse_odd b(2)] ok bad parse_defaults b(1)
    by auto
qed

section \<open>Environment variables and the configuration document\<close>

text \<open>
  Claim C6 at the input it fails on: with \<^verbatim>\<open>RTP_PORT=9000\<close> and
  \<^verbatim>\<open>RTCP_PORT=9001\<close> in the environment and no flag on the command line, the RTCP
  port is 9000, the value of \<^verbatim>\<open>RTP_PORT\<close>, and \<^verbatim>\<open>newProgram\<close> rejects the
  configuration because the RTCP port is not the RTP port plus one.
\<close>
theorem rtcp_port_reads_RTP_PORT:
  "map_option f_rtcpPort
     (kingpin_Parse plain_flags Map.empty [''RTP_PORT'' \<mapsto> ''9000'', ''RTCP_PORT'' \<mapsto> ''9001''])
     = Some 9000 \<and>
   newProgram plain_flags free_ports Map.empty [''RTP_PORT'' \<mapsto> ''9000'', ''RTCP_PORT'' \<mapsto> ''9001'']
     = Failed RtcpPortNotRtpPlus1"
  by (simp add: newProgram_def newProgram_checked_def newProgram_conf_def kingpin_Parse_def
        plain_flags_def flag_value_def plain_int_def plain_duration_def digit_def Second_def
        go_rem_def signed_modulo_int_def)

lemma flag_value_other:
  "envar \<noteq> Some var \<Longrightarrow>
   flag_value args (env(var := v)) name dflt envar = flag_value args env name dflt envar"
  by (cases envar; cases "args name") (simp_all add: flag_value_def)

lemma RTCP_PORT_never_read:
  "kingpin_Parse K args (env(''RTCP_PORT'' := v)) = kingpin_Parse K args env"
  by (simp add: kingpin_Parse_def flag_value_other cong: option.case_cong)

lemma decode_scalar_other:
  "key \<noteq> k \<Longrightarrow> decode_scalar conv z (AList.update k v kvs) key = decode_scalar conv z kvs key"
  by (simp add: decode_scalar_def update_conv')

lemma decode_string_list_other:
  "key \<noteq> k \<Longrightarrow> decode_string_list Y (AList.update k v kvs) key = decode_string_list Y kvs key"
  by (simp add: decode_string_list_def update_conv')

lemma decode_conf_ignores_streams:
  "decode_conf Y (YMap (AList.update ''streams'' v kvs)) = decode_conf Y (YMap kvs)"
  by (simp add: decode_conf_def decode_string_list_other decode_scalar_other cong: sum.case_cong)

text \<open>
  Claim C7, as amended. Loading a configuration document yields a record of the
  protocols, the three ports and the two timeouts only; the \<open>streams\<close> entries of the
  document are not loaded: whatever the document holds under \<open>streams\<close>, the result is
  the same.
\<close>
theorem loadConf_ignores_streams:
  "loadConf Y (with_input fs confPath (Document (YMap (AList.update ''streams'' v kvs)))) confPath =
   loadConf Y (with_input fs confPath (Document (YMap kvs))) confPath"
  by (simp add: loadConf_def with_input_def yaml_Decode_def decode_conf_ignores_streams)

text \<open>
  Claim C7 fails on the code. Two documents that map \<open>cam1\<close> to different origins load
  to the same configuration, which holds the protocols and nothing of the streams.
\<close>
theorem streams_not_loaded:
  "loadConf plain_yaml example_files ''a.yml'' =
     Inr \<lparr>Protocols = [''udp'', ''tcp''], RtspPort = 0, RtpPort = 0, RtcpPort = 0,
          StreamReadyTimeout = 0, StreamTTL = 0\<rparr> \<and>
   loadConf plain_yaml example_files ''b.yml'' = loadConf plain_yaml example_files ''a.yml'' \<and>
   proxy_document ''rtsp://origin-b/live'' \<noteq> proxy_document ''rtsp://origin-a/live''"
  by (simp add: loadConf_def example_files_def yaml_Decode_def decode_conf_def
        decode_string_list_def decode_scalar_def proxy_document_def plain_yaml_def)

text \<open>
  Claim C9. \<^verbatim>\<open>loadConf\<close> returns what the decoder returns for the input at the
  path, and the error of \<^verbatim>\<open>os.Open\<close> when the path is not \<open>stdin\<close> and cannot be
  opened. So it fails if and only if the file cannot be opened or the decoding fails,
  and every document that decodes is returned as decoded, whatever its values.
\<close>
theorem loadConf_only_open_and_decode:
  "loadConf Y fs confPath =
     (case conf_source fs confPath of None \<Rightarrow> Inl OpenFailed | Some inp \<Rightarrow> yaml_Decode Y inp) \<and>
   ((\<exists>e. loadConf Y fs confPath = Inl e) \<longleftrightarrow>
      (confPath \<noteq> ''stdin'' \<and> files fs confPath = None) \<or>
      (\<exists>inp e. conf_source fs confPath = Some inp \<and> yaml_Decode Y inp = Inl e)) \<and>
   (conf_source fs confPath = Some inp \<and> yaml_Decode Y inp = Inr c \<longrightarrow>
      loadConf Y fs confPath = Inr c)"
proof -
  have eq: "loadConf Y fs confPath =
     (case conf_source fs confPath of None \<Rightarrow> Inl OpenFailed | Some inp \<Rightarrow> yaml_Decode Y inp)"
    by (simp add: loadConf_def conf_source_def split: option.splits sum.splits)
  show ?thesis
    unfolding eq
    by (cases "conf_source fs confPath") (auto simp: conf_source_def split: if_splits)
qed

theorem loadConf_only_open_and_decode_witness:
  "conf_source example_files ''careless.yml'' = Some (Document careless_document) \<and>
   yaml_Decode plain_yaml (Document careless_document) =
     Inr \<lparr>Protocols = [], RtspPort = 8554, RtpPort = 8051, RtcpPort = 9000,
          StreamReadyTimeout = 0, StreamTTL = 0\<rparr> \<and>
   loadConf plain_yaml example_files ''careless.yml'' =
     Inr \<lparr>Protocols = [], RtspPort = 8554, RtpPort = 8051, RtcpPort = 9000,
          StreamReadyTimeout = 0, StreamTTL = 0\<rparr> \<and>
   loadConf plain_yaml example_files ''stdin'' =
     Inr \<lparr>Protocols = [], RtspPort = 8554, RtpPort = 8051, RtcpPort = 9000,
          StreamReadyTimeout = 0, StreamTTL = 0\<rparr> \<and>
   loadConf plain_yaml example_files ''missing.yml'' = Inl OpenFailed \<and>
   conf_violation \<lparr>Protocols = [], RtspPort = 8554, RtpPort = 8051, RtcpPort = 9000,
          StreamReadyTimeout = 0, StreamTTL = 0\<rparr>"
proof -
  let ?c = "\<lparr>Protocols = [], RtspPort = 8554, RtpPort = 8051, RtcpPort = 9000,
          StreamReadyTimeout = 0, StreamTTL = 0\<rparr>"
  have src: "conf_source example_files ''careless.yml'' = Some (Document careless_document)"
    by (simp add: conf_source_def example_files_def)
  have dec: "yaml_Decode plain_yaml (Document careless_document) = Inr ?c"
    by (simp add: yaml_Decode_def decode_conf_def decode_string_list_def decode_scalar_def
          careless_document_def plain_yaml_def plain_int_def plain_duration_def digit_def Second_def)
  have src2: "conf_source example_files ''stdin'' = Some (Document careless_document)"
    by (simp add: conf_source_def example_files_def)
  have src3: "conf_source example_files ''missing.yml'' = None"
    by (simp add: conf_source_def example_files_def)
  have v: "conf_violation ?c" by (simp add: conf_violation_def)
  show ?thesis
    using loadConf_only_open_and_decode [of plain_yaml example_files "''careless.yml''" "Document careless_document" ?c]
          loadConf_only_open_and_decode [of plain_yaml example_files "''stdin''" "Document careless_document" ?c]
          loadConf_only_open_and_decode [of plain_yaml example_files "''missing.yml''" "Document careless_document" ?c]
          src dec src2 src3 v
    by simp
qed

end
